theory Spec2Isabelle
  imports Complex_Main
begin

section \<open>Transcript alignment engine: data model\<close>

text \<open>
  The embedding follows \<^verbatim>\<open>src/types/transcript.ts\<close>, \<^verbatim>\<open>src/utils/time.ts\<close>,
  \<^verbatim>\<open>src/alignment/TranscriptAligner.ts\<close> and the timestamp parser of
  \<^verbatim>\<open>src/scraper/VTTProcessor.ts\<close>.

  Conventions. A JavaScript \<^verbatim>\<open>number\<close> held by a cue, a window or a segment is modelled
  as a \<^typ>\<open>real\<close> with exact arithmetic: the model covers finite numbers and leaves NaN,
  the infinities and the rounding of IEEE doubles out. Only the time-literal parsers,
  which produce NaN from text, have a result type with NaN. A JavaScript string is a
  \<^typ>\<open>string\<close>, one \<^typ>\<open>char\<close> per code unit. \<^verbatim>\<open>string | null\<close> is \<^typ>\<open>string option\<close> with
  \<^term>\<open>None\<close> for \<^verbatim>\<open>null\<close>. Calls to the logger have no effect on any returned value and
  are left out.

  Field names are those of the source, except where the name is taken in HOL: \<^verbatim>\<open>id\<close> and
  \<^verbatim>\<open>order\<close> of an agenda item are \<open>item_id\<close> and \<open>item_order\<close>, and \<^verbatim>\<open>start\<close>, \<^verbatim>\<open>end\<close> and
  \<^verbatim>\<open>text\<close> of a cue are \<open>cue_start\<close>, \<open>cue_end\<close> and \<open>cue_text\<close>.
\<close>

record speaker_window =
  startSec :: real
  endSec :: real
  speakerName :: string

text \<open>\<^verbatim>\<open>SpeakerWindow & { agendaItemId: string }\<close>, the element type of the flattened index.\<close>

record indexed_window = speaker_window +
  agendaItemId :: string

record agenda_item_rec =
  item_id :: string
  title :: string
  item_order :: real
  speakers :: "speaker_window list"

record vtt_cue =
  cue_start :: real
  cue_end :: real
  cue_text :: string

text \<open>
  The optional field \<^verbatim>\<open>agenda_item?: string | null\<close> has three kinds of value: the field
  is absent (\<^verbatim>\<open>undefined\<close>), it is \<^verbatim>\<open>null\<close>, or it is a string. Strict equality
  \<^verbatim>\<open>===\<close> tells the three apart, as equality of this datatype does.
\<close>

datatype agenda_ref = AgendaUndefined | AgendaNull | AgendaTitle string

record transcript_segment =
  segment_id :: string
  speaker_name :: "string option"
  transcript_text :: string
  video_seconds :: real
  timestamp_start :: string
  timestamp_end :: string
  duration_seconds :: real
  word_count :: real
  char_count :: real
  segment_type :: string
  agenda_item :: agenda_ref

section \<open>Interval utilities (\<^verbatim>\<open>utils/time.ts\<close>)\<close>

definition isTimeInWindow :: "real \<Rightarrow> real \<Rightarrow> real \<Rightarrow> real \<Rightarrow> bool" where
  "isTimeInWindow time start end graceWindow \<longleftrightarrow>
     time \<ge> (start - graceWindow) \<and> time < (end + graceWindow)"

text \<open>The callback of \<^verbatim>\<open>matching.reduce\<close>: the current element replaces the best one only
  when it is strictly closer.\<close>

definition closer :: "real \<Rightarrow> 'a speaker_window_scheme \<Rightarrow> 'a speaker_window_scheme
    \<Rightarrow> 'a speaker_window_scheme" where
  "closer time best current =
     (let bestDistance = \<bar>time - startSec best\<bar>;
          currentDistance = \<bar>time - startSec current\<bar>
      in if currentDistance < bestDistance then current else best)"

text \<open>\<^verbatim>\<open>reduce\<close> without an initial value starts from the first element and folds the
  others from left to right.\<close>

definition findBestSpeakerWindow ::
    "real \<Rightarrow> 'a speaker_window_scheme list \<Rightarrow> real \<Rightarrow> 'a speaker_window_scheme option" where
  "findBestSpeakerWindow time windows graceWindow =
     (let matching = filter (\<lambda>w. isTimeInWindow time (startSec w) (endSec w) graceWindow) windows
      in if length matching = 0 then None
         else if length matching = 1 then Some (matching ! 0)
         else Some (foldl (closer time) (hd matching) (tl matching)))"

section \<open>Strings and numbers of the host language\<close>

text \<open>\<^verbatim>\<open>String.prototype.padStart(n, c)\<close> with a one-character filler.\<close>

definition padStart :: "nat \<Rightarrow> char \<Rightarrow> string \<Rightarrow> string" where
  "padStart n c s = replicate (n - length s) c @ s"

definition digit_char :: "nat \<Rightarrow> char" where
  "digit_char d = char_of (48 + d)"

fun nat_toString :: "nat \<Rightarrow> string" where
  "nat_toString n =
     (if n < 10 then [digit_char n] else nat_toString (n div 10) @ [digit_char (n mod 10)])"

text \<open>\<^verbatim>\<open>Number.prototype.toString()\<close> on an integer-valued number: decimal digits, with a
  minus sign for a negative one (the exponent notation of magnitudes from \<open>10\<^sup>2\<^sup>1\<close> on is
  outside the model).\<close>

definition int_toString :: "int \<Rightarrow> string" where
  "int_toString i = (if i < 0 then CHR ''-'' # nat_toString (nat (- i)) else nat_toString (nat i))"

text \<open>\<^verbatim>\<open>Math.round\<close> rounds half-way cases towards \<open>+\<infinity>\<close>.\<close>

definition js_round :: "real \<Rightarrow> int" where
  "js_round x = \<lfloor>x + 1 / 2\<rfloor>"

text \<open>The remainder operator \<^verbatim>\<open>%\<close> truncates the quotient towards zero, so the result has
  the sign of the dividend.\<close>

definition js_trunc :: "real \<Rightarrow> int" where
  "js_trunc x = (if x < 0 then \<lceil>x\<rceil> else \<lfloor>x\<rfloor>)"

definition js_rem :: "real \<Rightarrow> real \<Rightarrow> real" where
  "js_rem a b = a - b * of_int (js_trunc (a / b))"

text \<open>White space as \<^verbatim>\<open>\s\<close> and \<^verbatim>\<open>trim\<close> see it, among the code units a \<^typ>\<open>char\<close> holds:
  tab, line feed, vertical tab, form feed, carriage return, space, no-break space.\<close>

definition is_space :: "char \<Rightarrow> bool" where
  "is_space c \<longleftrightarrow> of_char c \<in> {9, 10, 11, 12, 13, 32, 160 :: nat}"

definition trim :: "string \<Rightarrow> string" where
  "trim s = rev (dropWhile is_space (rev (dropWhile is_space s)))"

text \<open>\<^verbatim>\<open>split(/\s+/)\<close>: every maximal run of white space separates two pieces; the first
  argument is the piece being read.\<close>

function split_ws :: "string \<Rightarrow> string \<Rightarrow> string list" where
  "split_ws cur [] = [cur]"
| "split_ws cur (c # cs) =
     (if is_space c then cur # split_ws [] (dropWhile is_space cs)
      else split_ws (cur @ [c]) cs)"
  by pat_completeness auto
termination
  by (relation "measure (\<lambda>(cur, s). length s)")
     (auto simp: length_dropWhile_le less_Suc_eq_le)

section \<open>The aligner (\<^verbatim>\<open>alignment/TranscriptAligner.ts\<close>)\<close>

text \<open>The class field \<^verbatim>\<open>graceWindow\<close> is the first argument of every method that reads it.\<close>

subsection \<open>Speaker-window index\<close>

text \<open>The two nested loops push the windows item by item; \<^verbatim>\<open>Array.prototype.sort\<close> is
  stable, as \<^const>\<open>sort_key\<close> is.\<close>

definition collectAllSpeakers :: "agenda_item_rec list \<Rightarrow> indexed_window list" where
  "collectAllSpeakers agendaItems =
     sort_key startSec
       (concat (map (\<lambda>item. map (\<lambda>speaker.
            \<lparr>startSec = startSec speaker, endSec = endSec speaker,
             speakerName = speakerName speaker, agendaItemId = item_id item\<rparr>)
          (speakers item)) agendaItems))"

subsection \<open>Agenda item of a cue\<close>

fun speakerLoop :: "real \<Rightarrow> vtt_cue \<Rightarrow> speaker_window list \<Rightarrow> bool" where
  "speakerLoop graceWindow cue [] = False"
| "speakerLoop graceWindow cue (speaker # rest) =
     (if cue_start cue \<ge> startSec speaker - graceWindow \<and>
         cue_start cue < endSec speaker + graceWindow
      then True else speakerLoop graceWindow cue rest)"

definition isCueInAgendaItemTimeRange :: "real \<Rightarrow> vtt_cue \<Rightarrow> agenda_item_rec \<Rightarrow> bool" where
  "isCueInAgendaItemTimeRange graceWindow cue agendaItem =
     (if length (speakers agendaItem) = 0 then False
      else speakerLoop graceWindow cue (speakers agendaItem))"

fun itemLoop :: "real \<Rightarrow> vtt_cue \<Rightarrow> agenda_item_rec list \<Rightarrow> agenda_item_rec option" where
  "itemLoop graceWindow cue [] = None"
| "itemLoop graceWindow cue (item # rest) =
     (if isCueInAgendaItemTimeRange graceWindow cue item then Some item
      else itemLoop graceWindow cue rest)"

text \<open>\<^verbatim>\<open>matchedSpeaker\<close> is \<^term>\<open>None\<close> for \<^verbatim>\<open>undefined\<close>. The guard
  \<^verbatim>\<open>matchedSpeaker.agendaItemId\<close> is a truthiness test: the empty id does not pass.\<close>

definition findAgendaItemForCue ::
    "real \<Rightarrow> vtt_cue \<Rightarrow> agenda_item_rec list \<Rightarrow> indexed_window option \<Rightarrow> agenda_item_rec option" where
  "findAgendaItemForCue graceWindow cue agendaItems matchedSpeaker =
     (case (case matchedSpeaker of
              None \<Rightarrow> None
            | Some m \<Rightarrow> if agendaItemId m \<noteq> []
                        then List.find (\<lambda>item. item_id item = agendaItemId m) agendaItems
                        else None) of
        Some item \<Rightarrow> Some item
      | None \<Rightarrow>
         (case itemLoop graceWindow cue agendaItems of
            Some item \<Rightarrow> Some item
          | None \<Rightarrow> if length agendaItems > 0 then Some (agendaItems ! 0) else None))"

subsection \<open>Segment construction\<close>

definition secondsToHHMMSS :: "real \<Rightarrow> string" where
  "secondsToHHMMSS seconds =
     (let hours = \<lfloor>seconds / 3600\<rfloor>;
          minutes = \<lfloor>js_rem seconds 3600 / 60\<rfloor>;
          secs = \<lfloor>js_rem seconds 60\<rfloor>
      in padStart 2 CHR ''0'' (int_toString hours) @ '':'' @
         padStart 2 CHR ''0'' (int_toString minutes) @ '':'' @
         padStart 2 CHR ''0'' (int_toString secs))"

definition countWords :: "string \<Rightarrow> nat" where
  "countWords text = length (filter (\<lambda>word. length word > 0) (split_ws [] (trim text)))"

text \<open>\<^verbatim>\<open>x || null\<close> on an optional string: a missing and an empty string both give null.\<close>

definition or_null :: "string option \<Rightarrow> string option" where
  "or_null x = (case x of None \<Rightarrow> None | Some s \<Rightarrow> if s = [] then None else Some s)"

definition make_segment ::
    "real \<Rightarrow> indexed_window list \<Rightarrow> agenda_item_rec list \<Rightarrow> nat \<Rightarrow> vtt_cue \<Rightarrow> transcript_segment" where
  "make_segment graceWindow allSpeakers agendaItems segmentId cue =
     (let matchedSpeaker = findBestSpeakerWindow (cue_start cue) allSpeakers graceWindow;
          agendaItem = findAgendaItemForCue graceWindow cue agendaItems matchedSpeaker
      in \<lparr>segment_id = padStart 3 CHR ''0'' (nat_toString segmentId),
          speaker_name = or_null (map_option speakerName matchedSpeaker),
          transcript_text = cue_text cue,
          video_seconds = of_int \<lfloor>cue_start cue\<rfloor>,
          timestamp_start = secondsToHHMMSS (cue_start cue),
          timestamp_end = secondsToHHMMSS (cue_end cue),
          duration_seconds = of_int (js_round (cue_end cue - cue_start cue)),
          word_count = of_nat (countWords (cue_text cue)),
          char_count = of_nat (length (cue_text cue)),
          segment_type = ''spoken'',
          agenda_item = (case or_null (map_option title agendaItem) of
                           None \<Rightarrow> AgendaNull | Some t \<Rightarrow> AgendaTitle t)\<rparr>)"

text \<open>The loop over the cues, with the array under construction and the id counter.\<close>

fun alignLoop :: "real \<Rightarrow> indexed_window list \<Rightarrow> agenda_item_rec list
    \<Rightarrow> transcript_segment list \<Rightarrow> nat \<Rightarrow> vtt_cue list \<Rightarrow> transcript_segment list" where
  "alignLoop graceWindow allSpeakers agendaItems segments segmentId [] = segments"
| "alignLoop graceWindow allSpeakers agendaItems segments segmentId (cue # cues) =
     alignLoop graceWindow allSpeakers agendaItems
       (segments @ [make_segment graceWindow allSpeakers agendaItems segmentId cue])
       (segmentId + 1) cues"

definition alignTranscript ::
    "real \<Rightarrow> vtt_cue list \<Rightarrow> agenda_item_rec list \<Rightarrow> transcript_segment list" where
  "alignTranscript graceWindow cues agendaItems =
     alignLoop graceWindow (collectAllSpeakers agendaItems) agendaItems [] 1 cues"

subsection \<open>Validation\<close>

record validation =
  valid :: bool
  warnings :: "string list"
  errors :: "string list"

text \<open>
  The timing check, over the adjacent pairs from left to right, with the error array
  under construction. \<open>numToString\<close> stands for the conversion of a number inside a
  template literal: \<^verbatim>\<open>video_seconds\<close> is any number there, and the digits the language
  prints for one that is not an integer are outside the model.
\<close>

fun timingLoop :: "(real \<Rightarrow> string) \<Rightarrow> string list \<Rightarrow> transcript_segment list \<Rightarrow> string list" where
  "timingLoop numToString errs (current # next # rest) =
     timingLoop numToString
       (if video_seconds current > video_seconds next
        then errs @ [''Timing inconsistency at segment '' @ segment_id current @ '': '' @
                      numToString (video_seconds current) @ '' > '' @
                      numToString (video_seconds next)]
        else errs)
       (next # rest)"
| "timingLoop numToString errs segments = errs"

definition validateAlignment :: "(real \<Rightarrow> string) \<Rightarrow> transcript_segment list \<Rightarrow> validation" where
  "validateAlignment numToString segments =
     (if length segments = 0
      then \<lparr>valid = False, warnings = [], errors = [''No segments generated'']\<rparr>
      else
        let unalignedSpeakers = length (filter (\<lambda>s. speaker_name s = None) segments);
            speakerAlignmentRate =
              (real (length segments) - real unalignedSpeakers) / real (length segments);
            warnings1 =
              (if speakerAlignmentRate < 0.5
               then [''Low speaker alignment rate: '' @
                      int_toString (js_round (speakerAlignmentRate * 100)) @ ''%'']
               else []);
            unalignedAgenda = length (filter (\<lambda>s. agenda_item s = AgendaNull) segments);
            agendaAlignmentRate =
              (real (length segments) - real unalignedAgenda) / real (length segments);
            warnings2 =
              (if agendaAlignmentRate < 0.3
               then warnings1 @ [''Low agenda item alignment rate: '' @
                      int_toString (js_round (agendaAlignmentRate * 100)) @ ''%'']
               else warnings1);
            errs = timingLoop numToString [] segments
        in \<lparr>valid = (length errs = 0), warnings = warnings2, errors = errs\<rparr>)"

text \<open>
  The call as a transformer of the caller's array: the returned object and the array
  after the call. The body reads the array (\<^verbatim>\<open>length\<close>, \<^verbatim>\<open>filter\<close>, indexing) and
  assigns to no element and to no field of a segment; the only arrays it pushes to are
  its own \<^verbatim>\<open>warnings\<close> and \<^verbatim>\<open>errors\<close>.
\<close>

definition validateAlignment_call ::
    "(real \<Rightarrow> string) \<Rightarrow> transcript_segment list \<Rightarrow> validation \<times> transcript_segment list" where
  "validateAlignment_call numToString segments =
     (validateAlignment numToString segments, segments)"

subsection \<open>Post-processing pass A: gap fill\<close>

text \<open>Truthiness of \<^verbatim>\<open>string | null\<close>: null and the empty string are falsy.\<close>

definition truthy :: "string option \<Rightarrow> bool" where
  "truthy x \<longleftrightarrow> (case x of None \<Rightarrow> False | Some s \<Rightarrow> s \<noteq> [])"

text \<open>
  One iteration of the loop body at index \<open>i\<close>. \<^verbatim>\<open>result\<close> is a copy of the array, not of
  the segments, and the assignment writes the segment at index \<open>i\<close>; the neighbours are
  read from \<^verbatim>\<open>result\<close> as it is at that moment, so the predecessor is read after its own
  iteration has run.
\<close>

definition fillStep :: "nat \<Rightarrow> transcript_segment list \<Rightarrow> transcript_segment list" where
  "fillStep i result =
     (let segment = result ! i
      in if \<not> truthy (speaker_name segment) then
           let prevSpeaker = (if i > 0 then speaker_name (result ! (i - 1)) else None);
               nextSpeaker = (if i < length result - 1 then speaker_name (result ! (i + 1)) else None)
           in if truthy prevSpeaker \<and> prevSpeaker = nextSpeaker
              then result[i := segment\<lparr>speaker_name := prevSpeaker\<rparr>]
              else result
         else result)"

function fillLoop :: "nat \<Rightarrow> transcript_segment list \<Rightarrow> transcript_segment list" where
  "fillLoop i result =
     (if i < length result then fillLoop (i + 1) (fillStep i result) else result)"
  by pat_completeness auto
termination
  by (relation "measure (\<lambda>(i, result). length result - i)")
     (auto simp: fillStep_def Let_def)

declare fillLoop.simps [simp del]

definition fillSpeakerGaps :: "transcript_segment list \<Rightarrow> transcript_segment list" where
  "fillSpeakerGaps segments = fillLoop 0 segments"


subsection \<open>Post-processing pass B: short-segment merge\<close>

definition shouldMerge :: "real \<Rightarrow> transcript_segment \<Rightarrow> transcript_segment \<Rightarrow> bool" where
  "shouldMerge minDurationSeconds current next \<longleftrightarrow>
     speaker_name current = speaker_name next \<and>
     agenda_item current = agenda_item next \<and>
     duration_seconds current < minDurationSeconds \<and>
     (video_seconds next - (video_seconds current + duration_seconds current)) < 5"

definition mergeInto :: "transcript_segment \<Rightarrow> transcript_segment \<Rightarrow> transcript_segment" where
  "mergeInto current next =
     current\<lparr>transcript_text := transcript_text current @ '' '' @ transcript_text next,
             timestamp_end := timestamp_end next,
             duration_seconds := video_seconds next + duration_seconds next - video_seconds current,
             word_count := word_count current + word_count next,
             char_count := char_count current + char_count next\<rparr>"

text \<open>The loop from index 1 on, with the array \<^verbatim>\<open>result\<close> and the accumulator \<^verbatim>\<open>current\<close>;
  the final push is the empty case.\<close>

fun mergeLoop :: "real \<Rightarrow> transcript_segment list \<Rightarrow> transcript_segment
    \<Rightarrow> transcript_segment list \<Rightarrow> transcript_segment list" where
  "mergeLoop minDurationSeconds result current [] = result @ [current]"
| "mergeLoop minDurationSeconds result current (next # rest) =
     (if shouldMerge minDurationSeconds current next
      then mergeLoop minDurationSeconds result (mergeInto current next) rest
      else mergeLoop minDurationSeconds (result @ [current]) next rest)"

definition mergeShortSegments :: "transcript_segment list \<Rightarrow> real \<Rightarrow> transcript_segment list" where
  "mergeShortSegments segments minDurationSeconds =
     (case segments of
        [] \<Rightarrow> segments
      | first # others \<Rightarrow> mergeLoop minDurationSeconds [] first others)"

text \<open>The only caller leaves \<^verbatim>\<open>minDurationSeconds\<close> at its default, 2.\<close>

definition postProcessSegments :: "transcript_segment list \<Rightarrow> transcript_segment list" where
  "postProcessSegments segments = mergeShortSegments (fillSpeakerGaps segments) 2"

section \<open>Time literals (\<^verbatim>\<open>utils/time.ts\<close>, \<^verbatim>\<open>scraper/VTTProcessor.ts\<close>)\<close>

text \<open>\<^verbatim>\<open>throw new Error(message)\<close>.\<close>

datatype js_error = Error string

text \<open>The value of \<^verbatim>\<open>parseInt\<close> and of the arithmetic on it: NaN, which every operation
  propagates, or a number.\<close>

datatype js_number = NaN | Num real

fun num_add :: "js_number \<Rightarrow> js_number \<Rightarrow> js_number" where
  "num_add (Num a) (Num b) = Num (a + b)"
| "num_add a b = NaN"

fun num_mul :: "js_number \<Rightarrow> js_number \<Rightarrow> js_number" where
  "num_mul (Num a) (Num b) = Num (a * b)"
| "num_mul a b = NaN"

text \<open>Division, for the non-zero divisors the code divides by.\<close>

fun num_div :: "js_number \<Rightarrow> js_number \<Rightarrow> js_number" where
  "num_div (Num a) (Num b) = Num (a / b)"
| "num_div a b = NaN"

definition is_digit :: "char \<Rightarrow> bool" where
  "is_digit c \<longleftrightarrow> 48 \<le> (of_char c :: nat) \<and> (of_char c :: nat) \<le> 57"

definition digit_value :: "char \<Rightarrow> nat" where
  "digit_value c = of_char c - 48"

definition digits_value :: "string \<Rightarrow> nat" where
  "digits_value ds = foldl (\<lambda>acc c. 10 * acc + digit_value c) 0 ds"

text \<open>
  \<^verbatim>\<open>parseInt(s, 10)\<close>: leading white space is skipped, one sign is read, and the longest
  run of decimal digits that follows is the value; whatever comes after the digits is
  ignored, and NaN is returned when there is no digit.
\<close>

definition parseInt10 :: "string \<Rightarrow> js_number" where
  "parseInt10 s =
     (let s1 = dropWhile is_space s;
          negative = (s1 \<noteq> [] \<and> hd s1 = CHR ''-'');
          s2 = (if s1 \<noteq> [] \<and> (hd s1 = CHR ''-'' \<or> hd s1 = CHR ''+'') then tl s1 else s1);
          ds = takeWhile is_digit s2
      in if ds = [] then NaN
         else Num (if negative then - real (digits_value ds) else real (digits_value ds)))"

text \<open>\<^verbatim>\<open>split(sep)\<close> with a one-character separator; the second argument is the piece being
  read. The result is never empty.\<close>

fun split_on :: "char \<Rightarrow> string \<Rightarrow> string \<Rightarrow> string list" where
  "split_on sep cur [] = [cur]"
| "split_on sep cur (c # cs) =
     (if c = sep then cur # split_on sep [] cs else split_on sep (cur @ [c]) cs)"

definition split_str :: "char \<Rightarrow> string \<Rightarrow> string list" where
  "split_str sep s = split_on sep [] s"

definition padEnd :: "nat \<Rightarrow> char \<Rightarrow> string \<Rightarrow> string" where
  "padEnd n c s = s @ replicate (n - length s) c"

definition timeToSeconds :: "string \<Rightarrow> js_error + js_number" where
  "timeToSeconds timeStr =
     (let parts = map parseInt10 (split_str CHR '':'' timeStr)
      in if length parts = 2 then
           (let minutes = parts ! 0; seconds = parts ! 1
            in Inr (num_add (num_mul minutes (Num 60)) seconds))
         else if length parts = 3 then
           (let hours = parts ! 0; minutes = parts ! 1; seconds = parts ! 2
            in Inr (num_add (num_add (num_mul hours (Num 3600)) (num_mul minutes (Num 60))) seconds))
         else Inl (Error (''Invalid time format: '' @ timeStr)))"

text \<open>
  The first statement of \<^verbatim>\<open>vttTimestampToSeconds\<close> replaces a match of
  \<^verbatim>\<open>/^(\d):(\d{2}):(\d{2})\.(\d{3})$/\<close> by \<^verbatim>\<open>$1:$2:$3.$4\<close>, that is a whole string of that shape
  by itself: \<^verbatim>\<open>cleanTimestamp\<close> is the timestamp. \<^verbatim>\<open>milliseconds\<close> is undefined when the
  third part has no period; undefined and the empty string are both falsy.
\<close>

definition vttTimestampToSeconds :: "string \<Rightarrow> js_error + js_number" where
  "vttTimestampToSeconds timestamp =
     (let cleanTimestamp = timestamp;
          parts = split_str CHR '':'' cleanTimestamp
      in if length parts = 3 then
           (let hours = parseInt10 (parts ! 0);
                minutes = parseInt10 (parts ! 1);
                pieces = split_str CHR ''.'' (parts ! 2);
                secondsPart = pieces ! 0;
                milliseconds = (if 1 < length pieces then Some (pieces ! 1) else None);
                seconds = parseInt10 secondsPart;
                ms = (case milliseconds of
                        None \<Rightarrow> Num 0
                      | Some m \<Rightarrow> if m = [] then Num 0 else parseInt10 (padEnd 3 CHR ''0'' m))
            in Inr (num_add (num_add (num_add (num_mul hours (Num 3600)) (num_mul minutes (Num 60)))
                      seconds) (num_div ms (Num 1000))))
         else Inl (Error (''Invalid VTT timestamp format: '' @ timestamp)))"

text \<open>
  The regular expressions of the caption parser are sequences of two kinds of token: a
  run of digits with a least and a greatest length (\<^verbatim>\<open>\d\<close>, \<^verbatim>\<open>\d{2}\<close>, \<^verbatim>\<open>\d{1,3}\<close>, \<^verbatim>\<open>\d+\<close>)
  and a literal character that is not a digit; they are anchored at both ends. Every
  run is followed by a literal or by the end, so a match takes each maximal run of
  digits whole. The result of a match is the list of the runs, which are the groups.
\<close>

datatype token = Digits nat "nat option" | Lit char

fun matches :: "token list \<Rightarrow> string \<Rightarrow> string list option" where
  "matches [] s = (if s = [] then Some [] else None)"
| "matches (Lit c # ts) s =
     (case s of [] \<Rightarrow> None | x # xs \<Rightarrow> if x = c then matches ts xs else None)"
| "matches (Digits lo hi # ts) s =
     (let ds = takeWhile is_digit s
      in if lo \<le> length ds \<and> (case hi of None \<Rightarrow> True | Some h \<Rightarrow> length ds \<le> h)
         then map_option (\<lambda>groups. ds # groups) (matches ts (dropWhile is_digit s))
         else None)"

text \<open>\<^verbatim>\<open>replace(',', '.')\<close> with a string pattern replaces the first comma only.\<close>

fun replace_comma :: "string \<Rightarrow> string" where
  "replace_comma [] = []"
| "replace_comma (c # cs) = (if c = CHR '','' then CHR ''.'' # cs else c # replace_comma cs)"

definition parseVTTTimestamp :: "string \<Rightarrow> js_error + js_number" where
  "parseVTTTimestamp timestamp =
     (let normalized = replace_comma timestamp
      in if matches [Digits 1 (Some 1), Lit CHR '':'', Digits 2 (Some 2), Lit CHR '':'',
                     Digits 2 (Some 2), Lit CHR ''.'', Digits 1 None] normalized \<noteq> None
         then vttTimestampToSeconds normalized
         else
           (case matches [Digits 1 (Some 2), Lit CHR '':'', Digits 2 (Some 2), Lit CHR ''.'',
                          Digits 1 (Some 3)] normalized of
              Some [minutes, seconds, milliseconds] \<Rightarrow>
                Inr (num_add (num_add (num_mul (parseInt10 minutes) (Num 60)) (parseInt10 seconds))
                       (num_div (parseInt10 (padEnd 3 CHR ''0'' milliseconds)) (Num 1000)))
            | _ \<Rightarrow>
               (case matches [Digits 1 (Some 2), Lit CHR '':'', Digits 2 (Some 2), Lit CHR '':'',
                              Digits 2 (Some 2), Lit CHR ''.'', Digits 1 (Some 3)] normalized of
                  Some [hours, minutes, seconds, milliseconds] \<Rightarrow>
                    Inr (num_add (num_add (num_add (num_mul (parseInt10 hours) (Num 3600))
                           (num_mul (parseInt10 minutes) (Num 60))) (parseInt10 seconds))
                           (num_div (parseInt10 (padEnd 3 CHR ''0'' milliseconds)) (Num 1000)))
                | _ \<Rightarrow> vttTimestampToSeconds normalized)))"

text \<open>
  The forms of a time literal, in the words of the specification: \<^verbatim>\<open>MM:SS\<close>,
  \<^verbatim>\<open>HH:MM:SS\<close>, and the caption forms \<^verbatim>\<open>MM:SS.mmm\<close> and \<^verbatim>\<open>H:MM:SS.mmm\<close> with a comma or a
  period before the fraction. The leading field has one or two digits, the other
  fields two, the fraction one to three.
\<close>

definition form_MM_SS :: "token list" where
  "form_MM_SS = [Digits 1 (Some 2), Lit CHR '':'', Digits 2 (Some 2)]"

definition form_HH_MM_SS :: "token list" where
  "form_HH_MM_SS = [Digits 1 (Some 2), Lit CHR '':'', Digits 2 (Some 2), Lit CHR '':'',
     Digits 2 (Some 2)]"

definition form_MM_SS_mmm :: "char \<Rightarrow> token list" where
  "form_MM_SS_mmm sep = [Digits 1 (Some 2), Lit CHR '':'', Digits 2 (Some 2), Lit sep,
     Digits 1 (Some 3)]"

definition form_H_MM_SS_mmm :: "char \<Rightarrow> token list" where
  "form_H_MM_SS_mmm sep = [Digits 1 (Some 2), Lit CHR '':'', Digits 2 (Some 2), Lit CHR '':'',
     Digits 2 (Some 2), Lit sep, Digits 1 (Some 3)]"

definition time_literal_form :: "string \<Rightarrow> bool" where
  "time_literal_form s \<longleftrightarrow>
     matches form_MM_SS s \<noteq> None \<or> matches form_HH_MM_SS s \<noteq> None
     \<or> matches (form_MM_SS_mmm CHR ''.'') s \<noteq> None \<or> matches (form_MM_SS_mmm CHR '','') s \<noteq> None
     \<or> matches (form_H_MM_SS_mmm CHR ''.'') s \<noteq> None
     \<or> matches (form_H_MM_SS_mmm CHR '','') s \<noteq> None"

text \<open>
  The guard of the caller: \<^verbatim>\<open>parseVTT\<close> hands \<^verbatim>\<open>parseVTTTimestamp\<close> the two groups
  \<^verbatim>\<open>([\d:.,]+)\<close> of its timing-line expression, that is any non-empty string of digits,
  colons, periods and commas, inside a \<^verbatim>\<open>try\<close> whose \<^verbatim>\<open>catch\<close> logs the cue and drops it.
\<close>

definition timing_group :: "string \<Rightarrow> bool" where
  "timing_group s \<longleftrightarrow>
     s \<noteq> [] \<and> list_all (\<lambda>c. is_digit c \<or> c = CHR '':'' \<or> c = CHR ''.'' \<or> c = CHR '','') s"

section \<open>Sample data\<close>

text \<open>A segment as the aligner emits it for the one-word cue \<^verbatim>\<open>ja\<close>, used to run the
  post-processing passes and the validation on concrete inputs.\<close>

definition sample_segment :: "string \<Rightarrow> string option \<Rightarrow> agenda_ref \<Rightarrow> real \<Rightarrow> real \<Rightarrow> transcript_segment" where
  "sample_segment ident speaker agenda seconds duration =
     \<lparr>segment_id = ident, speaker_name = speaker, transcript_text = ''ja'',
      video_seconds = seconds, timestamp_start = ''00:00:00'', timestamp_end = ''00:00:01'',
      duration_seconds = duration, word_count = 1, char_count = 2,
      segment_type = ''spoken'', agenda_item = agenda\<rparr>"

text \<open>An agenda with an item without windows and an item with one window; an agenda
  whose only item has an empty title and a window with an empty speaker name; a cue.\<close>

definition sample_agenda :: "agenda_item_rec list" where
  "sample_agenda =
     [\<lparr>item_id = ''a1'', title = ''Opening'', item_order = 1, speakers = []\<rparr>,
      \<lparr>item_id = ''a2'', title = ''Begroting'', item_order = 2,
       speakers = [\<lparr>startSec = 76, endSec = 454, speakerName = ''Jules Bijl''\<rparr>]\<rparr>]"

definition unnamed_agenda :: "agenda_item_rec list" where
  "unnamed_agenda =
     [\<lparr>item_id = ''a1'', title = [], item_order = 1,
       speakers = [\<lparr>startSec = 76, endSec = 454, speakerName = []\<rparr>]\<rparr>]"

definition sample_cue :: vtt_cue where
  "sample_cue = \<lparr>cue_start = 83.2, cue_end = 85, cue_text = ''Dames en heren''\<rparr>"

section \<open>Properties of the window search\<close>

lemma foldl_closer_first_min:
  "\<exists>pre post. b # xs = pre @ foldl (closer t) b xs # post
      \<and> (\<forall>v \<in> set pre. \<bar>t - startSec (foldl (closer t) b xs)\<bar> < \<bar>t - startSec v\<bar>)
      \<and> (\<forall>v \<in> set post. \<bar>t - startSec (foldl (closer t) b xs)\<bar> \<le> \<bar>t - startSec v\<bar>)"
proof (induction xs rule: rev_induct)
  case Nil
  show ?case by (intro exI [of _ "[]"]) simp
next
  case (snoc x xs)
  let ?r = "foldl (closer t) b xs"
  from snoc obtain pre post where
    split: "b # xs = pre @ ?r # post"
    and before: "\<forall>v \<in> set pre. \<bar>t - startSec ?r\<bar> < \<bar>t - startSec v\<bar>"
    and after: "\<forall>v \<in> set post. \<bar>t - startSec ?r\<bar> \<le> \<bar>t - startSec v\<bar>"
    by blast
  show ?case
  proof (cases "\<bar>t - startSec x\<bar> < \<bar>t - startSec ?r\<bar>")
    case True
    then have res: "foldl (closer t) b (xs @ [x]) = x"
      by (simp add: closer_def)
    have "b # xs @ [x] = (b # xs) @ x # []"
      by simp
    moreover have "\<forall>v \<in> set (b # xs). \<bar>t - startSec x\<bar> < \<bar>t - startSec v\<bar>"
    proof
      fix v assume "v \<in> set (b # xs)"
      then have "v \<in> set pre \<or> v = ?r \<or> v \<in> set post"
        by (auto simp: split)
      then show "\<bar>t - startSec x\<bar> < \<bar>t - startSec v\<bar>"
        using True before after by force
    qed
    ultimately show ?thesis
      unfolding res by (metis empty_iff list.set(1))
  next
    case False
    then have res: "foldl (closer t) b (xs @ [x]) = ?r"
      by (simp add: closer_def)
    have "b # xs @ [x] = pre @ ?r # (post @ [x])"
      using split by simp
    moreover have "\<forall>v \<in> set (post @ [x]). \<bar>t - startSec ?r\<bar> \<le> \<bar>t - startSec v\<bar>"
      using after False by auto
    ultimately show ?thesis
      unfolding res using before by blast
  qed
qed

text \<open>
  C1. \<^verbatim>\<open>findBestSpeakerWindow\<close> returns null when no window contains the time (with the
  grace applied); it returns the only candidate when there is exactly one; otherwise it
  returns a candidate of minimal distance \<open>|time - startSec|\<close>, and of several
  candidates at that minimal distance the first in the candidate list: every candidate
  before the result is strictly farther, every candidate after it is at least as far.
\<close>

theorem findBestSpeakerWindow_first_closest:
  fixes windows :: "'a speaker_window_scheme list" and t g :: real
  defines "matching \<equiv> filter (\<lambda>w. isTimeInWindow t (startSec w) (endSec w) g) windows"
  shows "(matching = [] \<longrightarrow> findBestSpeakerWindow t windows g = None)
    \<and> (\<forall>w. matching = [w] \<longrightarrow> findBestSpeakerWindow t windows g = Some w)
    \<and> (matching \<noteq> [] \<longrightarrow> (\<exists>pre w post. matching = pre @ w # post
          \<and> findBestSpeakerWindow t windows g = Some w
          \<and> (\<forall>v \<in> set pre. \<bar>t - startSec w\<bar> < \<bar>t - startSec v\<bar>)
          \<and> (\<forall>v \<in> set post. \<bar>t - startSec w\<bar> \<le> \<bar>t - startSec v\<bar>)))"
proof (intro conjI allI impI)
  assume "matching = []"
  then show "findBestSpeakerWindow t windows g = None"
    by (simp add: findBestSpeakerWindow_def matching_def)
next
  fix w assume "matching = [w]"
  then show "findBestSpeakerWindow t windows g = Some w"
    by (simp add: findBestSpeakerWindow_def matching_def)
next
  assume ne: "matching \<noteq> []"
  then obtain b xs where bx: "matching = b # xs"
    by (cases matching) auto
  have res: "findBestSpeakerWindow t windows g = Some (foldl (closer t) b xs)"
  proof (cases xs)
    case Nil
    with bx show ?thesis
      by (simp add: findBestSpeakerWindow_def matching_def)
  next
    case (Cons y ys)
    with bx show ?thesis
      by (simp add: findBestSpeakerWindow_def matching_def)
  qed
  from foldl_closer_first_min [of b xs t] show "\<exists>pre w post. matching = pre @ w # post
          \<and> findBestSpeakerWindow t windows g = Some w
          \<and> (\<forall>v \<in> set pre. \<bar>t - startSec w\<bar> < \<bar>t - startSec v\<bar>)
          \<and> (\<forall>v \<in> set post. \<bar>t - startSec w\<bar> \<le> \<bar>t - startSec v\<bar>)"
    unfolding bx res by blast
qed

theorem findBestSpeakerWindow_first_closest_witness:
  "filter (\<lambda>w. isTimeInWindow 10 (startSec w) (endSec w) 0.35)
      [\<lparr>startSec = 8, endSec = 20, speakerName = ''A''\<rparr>,
       \<lparr>startSec = 8, endSec = 12, speakerName = ''B''\<rparr>,
       \<lparr>startSec = 30, endSec = 40, speakerName = ''C''\<rparr>]
     = [\<lparr>startSec = 8, endSec = 20, speakerName = ''A''\<rparr>,
        \<lparr>startSec = 8, endSec = 12, speakerName = ''B''\<rparr>]
   \<and> findBestSpeakerWindow 10
      [\<lparr>startSec = 8, endSec = 20, speakerName = ''A''\<rparr>,
       \<lparr>startSec = 8, endSec = 12, speakerName = ''B''\<rparr>,
       \<lparr>startSec = 30, endSec = 40, speakerName = ''C''\<rparr>] 0.35
     = Some \<lparr>startSec = 8, endSec = 20, speakerName = ''A''\<rparr>"
proof -
  let ?ws = "[\<lparr>startSec = 8, endSec = 20, speakerName = ''A''\<rparr>,
       \<lparr>startSec = 8, endSec = 12, speakerName = ''B''\<rparr>,
       \<lparr>startSec = 30, endSec = 40, speakerName = ''C''\<rparr>]"
  have m: "filter (\<lambda>w. isTimeInWindow 10 (startSec w) (endSec w) 0.35) ?ws
     = [\<lparr>startSec = 8, endSec = 20, speakerName = ''A''\<rparr>,
        \<lparr>startSec = 8, endSec = 12, speakerName = ''B''\<rparr>]"
    by (simp add: isTimeInWindow_def)
  from findBestSpeakerWindow_first_closest [of 10 "0.35" ?ws]
  obtain pre w post where
    sp: "[\<lparr>startSec = 8, endSec = 20, speakerName = ''A''\<rparr>,
        \<lparr>startSec = 8, endSec = 12, speakerName = ''B''\<rparr>] = pre @ w # post"
    and r: "findBestSpeakerWindow 10 ?ws 0.35 = Some w"
    and b: "\<forall>v \<in> set pre. \<bar>10 - startSec w\<bar> < \<bar>10 - startSec v\<bar>"
    unfolding m by blast
  have "pre = []"
  proof (cases pre)
    case Nil then show ?thesis .
  next
    case (Cons p ps)
    with sp have p: "p = \<lparr>startSec = 8, endSec = 20, speakerName = ''A''\<rparr>" by simp
    from sp Cons have "w \<in> set [\<lparr>startSec = 8, endSec = 20, speakerName = ''A''\<rparr>,
        \<lparr>startSec = 8, endSec = 12, speakerName = ''B''\<rparr>]"
      by (metis in_set_conv_decomp)
    then have "\<bar>10 - startSec w\<bar> = 2" by auto
    moreover from b Cons p have "\<bar>10 - startSec w\<bar> < 2" by simp
    ultimately show ?thesis by simp
  qed
  with sp r m show ?thesis by simp
qed

section \<open>Properties of the alignment loop\<close>

lemma alignLoop_enumerate:
  "alignLoop g sp items segs sid cues =
     segs @ map (\<lambda>(k, cue). make_segment g sp items k cue) (enumerate sid cues)"
  by (induction cues arbitrary: segs sid) simp_all

lemma alignTranscript_map:
  "alignTranscript g cues items =
     map (\<lambda>(k, cue). make_segment g (collectAllSpeakers items) items k cue) (enumerate 1 cues)"
  by (simp add: alignTranscript_def alignLoop_enumerate)

lemma map_make_segment_field:
  assumes "\<And>k cue. f (make_segment g sp items k cue) = h cue"
  shows "map f (map (\<lambda>(k, cue). make_segment g sp items k cue) (enumerate n cues)) = map h cues"
  using assms by (induction cues arbitrary: n) simp_all

text \<open>
  C2. \<^verbatim>\<open>alignTranscript\<close> emits exactly one segment per cue, in the order of the cues:
  the \<open>i\<close>-th segment carries the text of the \<open>i\<close>-th cue and its \<^verbatim>\<open>video_seconds\<close> is the
  floor of that cue's start.
\<close>

theorem alignTranscript_order:
  "length (alignTranscript g cues items) = length cues
   \<and> map video_seconds (alignTranscript g cues items) = map (\<lambda>cue. of_int \<lfloor>cue_start cue\<rfloor>) cues
   \<and> map transcript_text (alignTranscript g cues items) = map cue_text cues"
proof (intro conjI)
  show "length (alignTranscript g cues items) = length cues"
    by (simp add: alignTranscript_map)
  show "map video_seconds (alignTranscript g cues items) = map (\<lambda>cue. of_int \<lfloor>cue_start cue\<rfloor>) cues"
    unfolding alignTranscript_map
    by (rule map_make_segment_field) (simp add: make_segment_def Let_def)
  show "map transcript_text (alignTranscript g cues items) = map cue_text cues"
    unfolding alignTranscript_map
    by (rule map_make_segment_field) (simp add: make_segment_def Let_def)
qed

lemma alignTranscript_nth:
  assumes "i < length cues"
  shows "alignTranscript g cues items ! i =
     make_segment g (collectAllSpeakers items) items (Suc i) (cues ! i)"
  using assms by (simp add: alignTranscript_map nth_enumerate_eq)

section \<open>Properties of the agenda-item resolution\<close>

lemma speakerLoop_iff:
  "speakerLoop g cue sps \<longleftrightarrow>
     (\<exists>w \<in> set sps. startSec w - g \<le> cue_start cue \<and> cue_start cue < endSec w + g)"
  by (induction sps) auto

lemma isCueInAgendaItemTimeRange_iff:
  "isCueInAgendaItemTimeRange g cue item \<longleftrightarrow>
     (\<exists>w \<in> set (speakers item). startSec w - g \<le> cue_start cue \<and> cue_start cue < endSec w + g)"
  by (cases "speakers item") (simp_all add: isCueInAgendaItemTimeRange_def speakerLoop_iff)

lemma itemLoop_first:
  "(\<forall>j \<in> set pre. \<not> isCueInAgendaItemTimeRange g cue j) \<Longrightarrow> isCueInAgendaItemTimeRange g cue item
     \<Longrightarrow> itemLoop g cue (pre @ item # post) = Some item"
  by (induction pre) simp_all

lemma itemLoop_none:
  "(\<forall>j \<in> set items. \<not> isCueInAgendaItemTimeRange g cue j) \<Longrightarrow> itemLoop g cue items = None"
  by (induction items) simp_all

lemma findAgendaItemForCue_unmatched_Some:
  "items \<noteq> [] \<Longrightarrow> \<exists>item. findAgendaItemForCue g cue items None = Some item"
  by (cases items) (auto simp: findAgendaItemForCue_def split: option.splits)

text \<open>
  C6. For a cue without a matched speaker window (\<^verbatim>\<open>matchedSpeaker\<close> undefined), the
  agenda items are scanned in declaration order and the first one with a speaker window
  \<open>w\<close> such that \<open>w.startSec - grace \<le> cue.start < w.endSec + grace\<close> is chosen; if there
  is none, the first agenda item is chosen; the result is null exactly when the list of
  agenda items is empty.
\<close>

theorem findAgendaItemForCue_unmatched:
  "(\<forall>pre item post. items = pre @ item # post
        \<and> (\<forall>j \<in> set pre. \<not> (\<exists>w \<in> set (speakers j).
               startSec w - g \<le> cue_start cue \<and> cue_start cue < endSec w + g))
        \<and> (\<exists>w \<in> set (speakers item).
               startSec w - g \<le> cue_start cue \<and> cue_start cue < endSec w + g)
      \<longrightarrow> findAgendaItemForCue g cue items None = Some item)
   \<and> ((\<forall>j \<in> set items. \<not> (\<exists>w \<in> set (speakers j).
               startSec w - g \<le> cue_start cue \<and> cue_start cue < endSec w + g))
      \<longrightarrow> findAgendaItemForCue g cue items None
            = (case items of [] \<Rightarrow> None | first # others \<Rightarrow> Some first))
   \<and> (findAgendaItemForCue g cue items None = None \<longleftrightarrow> items = [])"
proof (intro conjI allI impI)
  fix pre item post
  assume h: "items = pre @ item # post
        \<and> (\<forall>j \<in> set pre. \<not> (\<exists>w \<in> set (speakers j).
               startSec w - g \<le> cue_start cue \<and> cue_start cue < endSec w + g))
        \<and> (\<exists>w \<in> set (speakers item).
               startSec w - g \<le> cue_start cue \<and> cue_start cue < endSec w + g)"
  then have "itemLoop g cue items = Some item"
    using itemLoop_first [of pre g cue item post]
    by (simp add: isCueInAgendaItemTimeRange_iff)
  then show "findAgendaItemForCue g cue items None = Some item"
    by (simp add: findAgendaItemForCue_def)
next
  assume "\<forall>j \<in> set items. \<not> (\<exists>w \<in> set (speakers j).
               startSec w - g \<le> cue_start cue \<and> cue_start cue < endSec w + g)"
  then have "itemLoop g cue items = None"
    using itemLoop_none [of items g cue]
    by (simp add: isCueInAgendaItemTimeRange_iff)
  then show "findAgendaItemForCue g cue items None
            = (case items of [] \<Rightarrow> None | first # others \<Rightarrow> Some first)"
    by (cases items) (simp_all add: findAgendaItemForCue_def)
next
  show "findAgendaItemForCue g cue items None = None \<longleftrightarrow> items = []"
  proof
    assume "findAgendaItemForCue g cue items None = None"
    then show "items = []"
      using findAgendaItemForCue_unmatched_Some [of items g cue] by auto
  next
    assume "items = []"
    then show "findAgendaItemForCue g cue items None = None"
      by (simp add: findAgendaItemForCue_def)
  qed
qed



theorem findAgendaItemForCue_unmatched_witness:
  "findAgendaItemForCue 0.35 \<lparr>cue_start = 83.2, cue_end = 85, cue_text = ''Dames en heren''\<rparr>
      sample_agenda None
     = Some \<lparr>item_id = ''a2'', title = ''Begroting'', item_order = 2,
             speakers = [\<lparr>startSec = 76, endSec = 454, speakerName = ''Jules Bijl''\<rparr>]\<rparr>
   \<and> findAgendaItemForCue 0.35 \<lparr>cue_start = 20, cue_end = 21, cue_text = ''Goedenavond''\<rparr>
      sample_agenda None
     = Some \<lparr>item_id = ''a1'', title = ''Opening'', item_order = 1, speakers = []\<rparr>"
proof -
  let ?g = "0.35 :: real"
  let ?a1 = "\<lparr>item_id = ''a1'', title = ''Opening'', item_order = 1, speakers = []\<rparr>"
  let ?a2 = "\<lparr>item_id = ''a2'', title = ''Begroting'', item_order = 2,
       speakers = [\<lparr>startSec = 76, endSec = 454, speakerName = ''Jules Bijl''\<rparr>]\<rparr>"
  let ?c1 = "\<lparr>cue_start = 83.2, cue_end = 85, cue_text = ''Dames en heren''\<rparr>"
  let ?c2 = "\<lparr>cue_start = 20, cue_end = 21, cue_text = ''Goedenavond''\<rparr>"
  have "findAgendaItemForCue ?g ?c1 sample_agenda None = Some ?a2"
    using findAgendaItemForCue_unmatched [of sample_agenda ?g ?c1,
        THEN conjunct1, rule_format, of "[?a1]" ?a2 "[]"]
    by (simp add: sample_agenda_def)
  moreover have "findAgendaItemForCue ?g ?c2 sample_agenda None = Some ?a1"
    using findAgendaItemForCue_unmatched [of sample_agenda ?g ?c2,
        THEN conjunct2, THEN conjunct1]
    by (simp add: sample_agenda_def)
  ultimately show ?thesis by simp
qed

text \<open>
  Inside \<^const>\<open>alignTranscript\<close> the scan by time range tests the windows the window
  search has tested, with the same grace: for a cue without a matched window it finds
  no item, and the item of such a cue is the first agenda item, if there is one. The
  scan decides for a matched window whose item id is empty or names no item.
\<close>

lemma findBestSpeakerWindow_None:
  "findBestSpeakerWindow t ws g = None \<longleftrightarrow>
     (\<forall>w \<in> set ws. \<not> isTimeInWindow t (startSec w) (endSec w) g)"
  by (auto simp: findBestSpeakerWindow_def Let_def filter_empty_conv)

lemma unmatched_cue_outside_all_items:
  assumes "findBestSpeakerWindow (cue_start cue) (collectAllSpeakers items) g = None"
  shows "itemLoop g cue items = None"
proof (rule itemLoop_none, intro ballI notI)
  fix item assume item: "item \<in> set items" and "isCueInAgendaItemTimeRange g cue item"
  then obtain w where w: "w \<in> set (speakers item)"
    and r: "startSec w - g \<le> cue_start cue \<and> cue_start cue < endSec w + g"
    by (auto simp: isCueInAgendaItemTimeRange_iff)
  let ?iw = "\<lparr>startSec = startSec w, endSec = endSec w, speakerName = speakerName w,
      agendaItemId = item_id item\<rparr>"
  have "?iw \<in> set (collectAllSpeakers items)"
    using item w by (auto simp: collectAllSpeakers_def)
  with assms have "\<not> isTimeInWindow (cue_start cue) (startSec ?iw) (endSec ?iw) g"
    by (auto simp: findBestSpeakerWindow_None)
  with r show False
    by (simp add: isTimeInWindow_def)
qed

section \<open>Attribution of a segment\<close>

lemma speaker_name_make_segment:
  "speaker_name (make_segment g sp items k cue)
     = or_null (map_option speakerName (findBestSpeakerWindow (cue_start cue) sp g))"
  by (simp add: make_segment_def Let_def)

lemma agenda_item_make_segment:
  "agenda_item (make_segment g sp items k cue)
     = (case or_null (map_option title (findAgendaItemForCue g cue items
           (findBestSpeakerWindow (cue_start cue) sp g))) of
          None \<Rightarrow> AgendaNull | Some t \<Rightarrow> AgendaTitle t)"
  by (simp add: make_segment_def Let_def)

text \<open>
  C7 fails on the code, which writes \<^verbatim>\<open>||\<close> where the claim reads \<^verbatim>\<open>??\<close>. A cue inside a
  window whose \<^verbatim>\<open>speakerName\<close> is the empty string, owned by an item whose title is the
  empty string: a window matched and an item resolved, and the segment carries null for
  both.
\<close>

theorem alignTranscript_nullish_counterexample:
  "map_option speakerName
     (findBestSpeakerWindow (cue_start sample_cue) (collectAllSpeakers unnamed_agenda) 0.35)
     = Some []
   \<and> speaker_name (alignTranscript 0.35 [sample_cue] unnamed_agenda ! 0) = None
   \<and> map_option title
     (findAgendaItemForCue 0.35 sample_cue unnamed_agenda
        (findBestSpeakerWindow (cue_start sample_cue) (collectAllSpeakers unnamed_agenda) 0.35))
     = Some []
   \<and> agenda_item (alignTranscript 0.35 [sample_cue] unnamed_agenda ! 0) = AgendaNull"
proof -
  have sp: "collectAllSpeakers unnamed_agenda =
     [\<lparr>startSec = 76, endSec = 454, speakerName = [], agendaItemId = ''a1''\<rparr>]"
    by (simp add: collectAllSpeakers_def unnamed_agenda_def)
  have best: "findBestSpeakerWindow (cue_start sample_cue) (collectAllSpeakers unnamed_agenda) 0.35
     = Some \<lparr>startSec = 76, endSec = 454, speakerName = [], agendaItemId = ''a1''\<rparr>"
    by (simp add: sp findBestSpeakerWindow_def isTimeInWindow_def sample_cue_def)
  have item: "findAgendaItemForCue 0.35 sample_cue unnamed_agenda
       (Some \<lparr>startSec = 76, endSec = 454, speakerName = [], agendaItemId = ''a1''\<rparr>)
     = Some \<lparr>item_id = ''a1'', title = [], item_order = 1,
       speakers = [\<lparr>startSec = 76, endSec = 454, speakerName = []\<rparr>]\<rparr>"
    by (simp add: findAgendaItemForCue_def unnamed_agenda_def)
  have seg: "alignTranscript 0.35 [sample_cue] unnamed_agenda ! 0
     = make_segment 0.35 (collectAllSpeakers unnamed_agenda) unnamed_agenda (Suc 0) sample_cue"
    using alignTranscript_nth [of 0 "[sample_cue]" "0.35" unnamed_agenda] by simp
  show ?thesis
    unfolding seg speaker_name_make_segment agenda_item_make_segment best item
    by (simp add: or_null_def)
qed

text \<open>
  C7, amended. The segment's \<^verbatim>\<open>speaker_name\<close> is \<^verbatim>\<open>matchedWindow?.speakerName || null\<close>: the
  matched window's name when a window matched and its name is not empty, null when no
  window matched or the name is the empty string. Its \<^verbatim>\<open>agenda_item\<close> is
  \<^verbatim>\<open>resolvedItem?.title || null\<close>: the resolved item's title when an item resolved and its
  title is not empty, null when none resolved or the title is the empty string.
\<close>

theorem alignTranscript_attribution:
  "\<forall>i < length cues.
     speaker_name (alignTranscript g cues items ! i) =
       (case findBestSpeakerWindow (cue_start (cues ! i)) (collectAllSpeakers items) g of
          None \<Rightarrow> None
        | Some w \<Rightarrow> if speakerName w = [] then None else Some (speakerName w))
     \<and> agenda_item (alignTranscript g cues items ! i) =
       (case findAgendaItemForCue g (cues ! i) items
               (findBestSpeakerWindow (cue_start (cues ! i)) (collectAllSpeakers items) g) of
          None \<Rightarrow> AgendaNull
        | Some item \<Rightarrow> if title item = [] then AgendaNull else AgendaTitle (title item))"
  by (simp add: alignTranscript_nth speaker_name_make_segment agenda_item_make_segment
      or_null_def split: option.splits)

theorem alignTranscript_attribution_witness:
  "speaker_name (alignTranscript 0.35 [sample_cue] sample_agenda ! 0) = Some ''Jules Bijl''
   \<and> agenda_item (alignTranscript 0.35 [sample_cue] sample_agenda ! 0) = AgendaTitle ''Begroting''"
proof -
  have sp: "collectAllSpeakers sample_agenda =
     [\<lparr>startSec = 76, endSec = 454, speakerName = ''Jules Bijl'', agendaItemId = ''a2''\<rparr>]"
    by (simp add: collectAllSpeakers_def sample_agenda_def)
  have best: "findBestSpeakerWindow (cue_start ([sample_cue] ! 0)) (collectAllSpeakers sample_agenda) 0.35
     = Some \<lparr>startSec = 76, endSec = 454, speakerName = ''Jules Bijl'', agendaItemId = ''a2''\<rparr>"
    by (simp add: sp findBestSpeakerWindow_def isTimeInWindow_def sample_cue_def)
  have item: "findAgendaItemForCue 0.35 ([sample_cue] ! 0) sample_agenda
       (Some \<lparr>startSec = 76, endSec = 454, speakerName = ''Jules Bijl'', agendaItemId = ''a2''\<rparr>)
     = Some \<lparr>item_id = ''a2'', title = ''Begroting'', item_order = 2,
       speakers = [\<lparr>startSec = 76, endSec = 454, speakerName = ''Jules Bijl''\<rparr>]\<rparr>"
    by (simp add: findAgendaItemForCue_def sample_agenda_def)
  have "(0::nat) < length [sample_cue]"
    by simp
  from alignTranscript_attribution [of "[sample_cue]" "0.35" sample_agenda, rule_format, OF this]
  show ?thesis
    unfolding best item by simp
qed

section \<open>Properties of the gap fill\<close>

lemma length_fillStep [simp]: "length (fillStep i result) = length result"
  by (simp add: fillStep_def Let_def)















section \<open>Properties of the short-segment merge\<close>

lemma mergeLoop_result:
  "mergeLoop m result current segs = result @ mergeLoop m [] current segs"
proof (induction segs arbitrary: result current)
  case Nil
  show ?case by simp
next
  case (Cons n rest)
  show ?case
  proof (cases "shouldMerge m current n")
    case True
    then show ?thesis using Cons [of result "mergeInto current n"] by simp
  next
    case False
    then show ?thesis using Cons [of "result @ [current]" n] Cons [of "[current]" n] by simp
  qed
qed

lemma mergeShortSegments_Cons:
  "mergeShortSegments (current # segs) m = mergeLoop m [] current segs"
  by (simp add: mergeShortSegments_def)

lemma mergeShortSegments_step:
  "mergeShortSegments (current # next # rest) m =
     (if shouldMerge m current next then mergeShortSegments (mergeInto current next # rest) m
      else current # mergeShortSegments (next # rest) m)"
  using mergeLoop_result [of m "[current]" "next" rest]
  by (simp add: mergeShortSegments_Cons)

lemma mergeInto_fields:
  "mergeInto current next =
     \<lparr>segment_id = segment_id current,
      speaker_name = speaker_name current,
      transcript_text = transcript_text current @ '' '' @ transcript_text next,
      video_seconds = video_seconds current,
      timestamp_start = timestamp_start current,
      timestamp_end = timestamp_end next,
      duration_seconds = video_seconds next + duration_seconds next - video_seconds current,
      word_count = word_count current + word_count next,
      char_count = char_count current + char_count next,
      segment_type = segment_type current,
      agenda_item = agenda_item current\<rparr>"
  by (simp add: mergeInto_def)

text \<open>
  C4. With the default threshold 2, the merge pass folds the next segment into the
  accumulator exactly when both have the same \<^verbatim>\<open>speaker_name\<close>, the same \<^verbatim>\<open>agenda_item\<close>,
  the accumulator's \<^verbatim>\<open>duration_seconds\<close> is strictly below 2 and the gap
  \<^verbatim>\<open>next.video_seconds - (current.video_seconds + current.duration_seconds)\<close> is strictly
  below 5. The merged accumulator has the two texts joined by one space, the end
  timestamp of the next segment, the duration
  \<^verbatim>\<open>next.video_seconds + next.duration_seconds - current.video_seconds\<close> and the sums of the
  word and character counts; otherwise the accumulator is emitted and the next segment
  becomes the accumulator. The head of the list is the accumulator.
\<close>

theorem mergeShortSegments_merge_rule:
  "mergeShortSegments (current # next # rest) 2 =
     (if speaker_name current = speaker_name next
         \<and> agenda_item current = agenda_item next
         \<and> duration_seconds current < 2
         \<and> video_seconds next - (video_seconds current + duration_seconds current) < 5
      then mergeShortSegments
             (\<lparr>segment_id = segment_id current,
               speaker_name = speaker_name current,
               transcript_text = transcript_text current @ '' '' @ transcript_text next,
               video_seconds = video_seconds current,
               timestamp_start = timestamp_start current,
               timestamp_end = timestamp_end next,
               duration_seconds = video_seconds next + duration_seconds next - video_seconds current,
               word_count = word_count current + word_count next,
               char_count = char_count current + char_count next,
               segment_type = segment_type current,
               agenda_item = agenda_item current\<rparr> # rest) 2
      else current # mergeShortSegments (next # rest) 2)"
  unfolding mergeShortSegments_step mergeInto_fields [symmetric]
  by (simp add: shouldMerge_def)

theorem mergeShortSegments_merge_rule_witness:
  "mergeShortSegments
     [sample_segment ''001'' (Some ''A'') (AgendaTitle ''X'') 10 1,
      sample_segment ''002'' (Some ''A'') (AgendaTitle ''X'') 13 1,
      sample_segment ''003'' (Some ''A'') (AgendaTitle ''X'') 20 1] 2
   = [(sample_segment ''001'' (Some ''A'') (AgendaTitle ''X'') 10 4)
        \<lparr>transcript_text := ''ja ja'', word_count := 2, char_count := 4\<rparr>,
      sample_segment ''003'' (Some ''A'') (AgendaTitle ''X'') 20 1]"
  using mergeShortSegments_merge_rule [of
      "sample_segment ''001'' (Some ''A'') (AgendaTitle ''X'') 10 1"
      "sample_segment ''002'' (Some ''A'') (AgendaTitle ''X'') 13 1"
      "[sample_segment ''003'' (Some ''A'') (AgendaTitle ''X'') 20 1]"]
    mergeShortSegments_merge_rule [of
      "(sample_segment ''001'' (Some ''A'') (AgendaTitle ''X'') 10 4)
        \<lparr>transcript_text := ''ja ja'', word_count := 2, char_count := 4\<rparr>"
      "sample_segment ''003'' (Some ''A'') (AgendaTitle ''X'') 20 1" "[]"]
  by (simp add: sample_segment_def mergeShortSegments_def)

lemma mergeLoop_word_count:
  "sum_list (map word_count (mergeLoop m result current segs)) =
     sum_list (map word_count result) + word_count current + sum_list (map word_count segs)"
  by (induction segs arbitrary: result current) (simp_all add: mergeInto_def)

lemma mergeLoop_char_count:
  "sum_list (map char_count (mergeLoop m result current segs)) =
     sum_list (map char_count result) + char_count current + sum_list (map char_count segs)"
  by (induction segs arbitrary: result current) (simp_all add: mergeInto_def)

lemma mergeLoop_length_le:
  "length (mergeLoop m result current segs) \<le> length result + 1 + length segs"
proof (induction segs arbitrary: result current)
  case Nil
  show ?case by simp
next
  case (Cons n rest)
  show ?case
    using Cons [of result "mergeInto current n"] Cons [of "result @ [current]" n]
    by simp
qed

lemma mergeLoop_length_ge:
  "length result + 1 \<le> length (mergeLoop m result current segs)"
proof (induction segs arbitrary: result current)
  case Nil
  show ?case by simp
next
  case (Cons n rest)
  show ?case
    using Cons [of result "mergeInto current n"] Cons [of "result @ [current]" n]
    by simp
qed

text \<open>
  C10. The merge pass conserves the totals: the sum of \<^verbatim>\<open>word_count\<close> and the sum of
  \<^verbatim>\<open>char_count\<close> over the output equal those over the input, for every threshold; a
  non-empty input gives a non-empty output, and the output is never longer than the
  input.
\<close>

theorem mergeShortSegments_conserves:
  "sum_list (map word_count (mergeShortSegments segs m)) = sum_list (map word_count segs)
   \<and> sum_list (map char_count (mergeShortSegments segs m)) = sum_list (map char_count segs)
   \<and> (segs \<noteq> [] \<longrightarrow> 1 \<le> length (mergeShortSegments segs m))
   \<and> length (mergeShortSegments segs m) \<le> length segs"
proof (cases segs)
  case Nil
  then show ?thesis by (simp add: mergeShortSegments_def)
next
  case (Cons first others)
  show ?thesis
    unfolding Cons mergeShortSegments_Cons
    using mergeLoop_length_le [of m "[]" first others] mergeLoop_length_ge [of "[]" m first others]
    by (simp add: mergeLoop_word_count mergeLoop_char_count)
qed

theorem mergeShortSegments_conserves_witness:
  "[sample_segment ''001'' None AgendaNull 10 1,
    sample_segment ''002'' None AgendaNull 12 1] \<noteq> []
   \<and> 1 \<le> length (mergeShortSegments
          [sample_segment ''001'' None AgendaNull 10 1,
           sample_segment ''002'' None AgendaNull 12 1] 2)
   \<and> length (mergeShortSegments
          [sample_segment ''001'' None AgendaNull 10 1,
           sample_segment ''002'' None AgendaNull 12 1] 2) \<le> 2
   \<and> sum_list (map word_count (mergeShortSegments
          [sample_segment ''001'' None AgendaNull 10 1,
           sample_segment ''002'' None AgendaNull 12 1] 2)) = 2"
  using mergeShortSegments_conserves [of
      "[sample_segment ''001'' None AgendaNull 10 1,
        sample_segment ''002'' None AgendaNull 12 1]" 2]
  by (simp add: sample_segment_def)

text \<open>
  Idempotence rests on two facts: the test \<^const>\<open>shouldMerge\<close> reads only the speaker, the
  agenda item and \<^verbatim>\<open>video_seconds\<close> of the next segment, which a merge leaves as they are in
  the accumulator; and the pass emits the accumulator only in front of a segment it
  does not merge with.
\<close>

lemma shouldMerge_cong:
  "speaker_name n' = speaker_name n \<Longrightarrow> agenda_item n' = agenda_item n
    \<Longrightarrow> video_seconds n' = video_seconds n
    \<Longrightarrow> shouldMerge m c n' = shouldMerge m c n"
  by (simp add: shouldMerge_def)

lemma mergeLoop_head:
  "\<exists>h t. mergeLoop m [] current segs = h # t
      \<and> speaker_name h = speaker_name current
      \<and> agenda_item h = agenda_item current
      \<and> video_seconds h = video_seconds current"
proof (induction segs arbitrary: current)
  case Nil
  show ?case by simp
next
  case (Cons n rest)
  show ?case
  proof (cases "shouldMerge m current n")
    case True
    then show ?thesis using Cons [of "mergeInto current n"] by (simp add: mergeInto_def)
  next
    case False
    then show ?thesis using mergeLoop_result [of m "[current]" n rest] by simp
  qed
qed

lemma mergeLoop_settled:
  "successively (\<lambda>a b. \<not> shouldMerge m a b) (mergeLoop m [] current segs)"
proof (induction segs arbitrary: current)
  case Nil
  show ?case by simp
next
  case (Cons n rest)
  show ?case
  proof (cases "shouldMerge m current n")
    case True
    then show ?thesis using Cons [of "mergeInto current n"] by simp
  next
    case False
    obtain h t where ht: "mergeLoop m [] n rest = h # t"
      and "speaker_name h = speaker_name n" "agenda_item h = agenda_item n"
      and "video_seconds h = video_seconds n"
      using mergeLoop_head [of m n rest] by blast
    then have "shouldMerge m current h = shouldMerge m current n"
      by (rule_tac shouldMerge_cong)
    with False have "\<not> shouldMerge m current h" by simp
    moreover have "successively (\<lambda>a b. \<not> shouldMerge m a b) (h # t)"
      using Cons [of n] ht by simp
    moreover have "mergeLoop m [] current (n # rest) = current # h # t"
      using False mergeLoop_result [of m "[current]" n rest] ht by simp
    ultimately show ?thesis by simp
  qed
qed

lemma mergeLoop_fixed:
  "successively (\<lambda>a b. \<not> shouldMerge m a b) (current # segs)
     \<Longrightarrow> mergeLoop m [] current segs = current # segs"
proof (induction segs arbitrary: current)
  case Nil
  show ?case by simp
next
  case (Cons n rest)
  then have "\<not> shouldMerge m current n" and "mergeLoop m [] n rest = n # rest"
    by simp_all
  then show ?case using mergeLoop_result [of m "[current]" n rest] by simp
qed

text \<open>
  C5. The merge pass is idempotent: running it on its own output returns that output,
  for every segment sequence and every threshold (the default 2 included).
\<close>

theorem mergeShortSegments_idempotent:
  "mergeShortSegments (mergeShortSegments segs m) m = mergeShortSegments segs m"
proof (cases segs)
  case Nil
  then show ?thesis by (simp add: mergeShortSegments_def)
next
  case (Cons first others)
  obtain h t where ht: "mergeLoop m [] first others = h # t"
    using mergeLoop_head [of m first others] by blast
  have "successively (\<lambda>a b. \<not> shouldMerge m a b) (h # t)"
    using mergeLoop_settled [of m first others] ht by simp
  then have "mergeLoop m [] h t = h # t"
    by (rule mergeLoop_fixed)
  then show ?thesis
    by (simp add: Cons mergeShortSegments_Cons ht)
qed

section \<open>Properties of the validation\<close>

lemma timingLoop_length:
  "length (timingLoop ns errs segs) =
     length errs + length (filter (\<lambda>(a, b). video_seconds a > video_seconds b) (zip segs (tl segs)))"
  by (induction ns errs segs rule: timingLoop.induct) simp_all

lemma adjacent_pairs:
  "(\<forall>(a, b) \<in> set (zip segs (tl segs)). P a b) \<longleftrightarrow>
     (\<forall>i. Suc i < length segs \<longrightarrow> P (segs ! i) (segs ! Suc i))"
proof
  assume l: "\<forall>(a, b) \<in> set (zip segs (tl segs)). P a b"
  show "\<forall>i. Suc i < length segs \<longrightarrow> P (segs ! i) (segs ! Suc i)"
  proof (intro allI impI)
    fix i assume i: "Suc i < length segs"
    then have "i < length (zip segs (tl segs))" by simp
    then have "zip segs (tl segs) ! i \<in> set (zip segs (tl segs))"
      by (rule nth_mem)
    moreover have "zip segs (tl segs) ! i = (segs ! i, segs ! Suc i)"
      using i by (simp add: nth_tl)
    ultimately show "P (segs ! i) (segs ! Suc i)"
      using l by auto
  qed
next
  assume r: "\<forall>i. Suc i < length segs \<longrightarrow> P (segs ! i) (segs ! Suc i)"
  show "\<forall>(a, b) \<in> set (zip segs (tl segs)). P a b"
  proof (clarify)
    fix a b assume "(a, b) \<in> set (zip segs (tl segs))"
    then obtain i where i: "i < length (zip segs (tl segs))" and e: "zip segs (tl segs) ! i = (a, b)"
      by (auto simp: in_set_conv_nth)
    from i have si: "Suc i < length segs" by simp
    with e have "a = segs ! i" "b = segs ! Suc i"
      by (simp_all add: nth_tl)
    with r si show "P a b" by simp
  qed
qed

lemma timingLoop_empty_iff:
  "length (timingLoop ns [] segs) = 0 \<longleftrightarrow>
     (\<forall>i. Suc i < length segs \<longrightarrow> video_seconds (segs ! i) \<le> video_seconds (segs ! Suc i))"
proof -
  have "length (timingLoop ns [] segs) = 0 \<longleftrightarrow>
      (\<forall>(a, b) \<in> set (zip segs (tl segs)). video_seconds a \<le> video_seconds b)"
    by (auto simp: timingLoop_length filter_empty_conv not_less)
  then show ?thesis
    by (simp add: adjacent_pairs)
qed

text \<open>
  C9. \<^verbatim>\<open>validateAlignment\<close> returns \<^verbatim>\<open>valid: true\<close> exactly when the sequence is not empty
  and no segment has a \<^verbatim>\<open>video_seconds\<close> strictly less than that of the segment just before
  it. For the empty sequence the result is \<^verbatim>\<open>valid: false\<close> with the one error
  \<^verbatim>\<open>No segments generated\<close> and no warning. The array of segments is the same after the
  call.
\<close>

theorem validateAlignment_valid:
  "(valid (validateAlignment ns segs) \<longleftrightarrow>
      segs \<noteq> [] \<and> \<not> (\<exists>i. Suc i < length segs
                        \<and> video_seconds (segs ! Suc i) < video_seconds (segs ! i)))
   \<and> validateAlignment ns [] = \<lparr>valid = False, warnings = [], errors = [''No segments generated'']\<rparr>
   \<and> snd (validateAlignment_call ns segs) = segs"
proof (intro conjI)
  show "valid (validateAlignment ns segs) \<longleftrightarrow>
      segs \<noteq> [] \<and> \<not> (\<exists>i. Suc i < length segs
                        \<and> video_seconds (segs ! Suc i) < video_seconds (segs ! i))"
  proof (cases segs)
    case Nil
    then show ?thesis by (simp add: validateAlignment_def)
  next
    case (Cons s rest)
    then have ne: "segs \<noteq> []" by simp
    then have "valid (validateAlignment ns segs) \<longleftrightarrow> length (timingLoop ns [] segs) = 0"
      by (simp add: validateAlignment_def Let_def)
    also have "\<dots> \<longleftrightarrow>
        (\<forall>i. Suc i < length segs \<longrightarrow> video_seconds (segs ! i) \<le> video_seconds (segs ! Suc i))"
      by (rule timingLoop_empty_iff)
    also have "\<dots> \<longleftrightarrow>
        \<not> (\<exists>i. Suc i < length segs \<and> video_seconds (segs ! Suc i) < video_seconds (segs ! i))"
      by (meson not_less)
    finally show ?thesis using ne by simp
  qed
  show "validateAlignment ns [] = \<lparr>valid = False, warnings = [], errors = [''No segments generated'']\<rparr>"
    by (simp add: validateAlignment_def)
  show "snd (validateAlignment_call ns segs) = segs"
    by (simp add: validateAlignment_call_def)
qed

theorem validateAlignment_valid_witness:
  "valid (validateAlignment (\<lambda>x. ''n'')
     [sample_segment ''001'' None AgendaNull 10 1, sample_segment ''002'' None AgendaNull 12 1])
   \<and> \<not> valid (validateAlignment (\<lambda>x. ''n'')
     [sample_segment ''001'' None AgendaNull 12 1, sample_segment ''002'' None AgendaNull 10 1])"
proof -
  have a: "\<not> (\<exists>i. Suc i < length [sample_segment ''001'' None AgendaNull 10 1,
                                     sample_segment ''002'' None AgendaNull 12 1]
        \<and> video_seconds ([sample_segment ''001'' None AgendaNull 10 1,
                             sample_segment ''002'' None AgendaNull 12 1] ! Suc i)
          < video_seconds ([sample_segment ''001'' None AgendaNull 10 1,
                             sample_segment ''002'' None AgendaNull 12 1] ! i))"
    by (simp add: sample_segment_def)
  have b: "\<exists>i. Suc i < length [sample_segment ''001'' None AgendaNull 12 1,
                                     sample_segment ''002'' None AgendaNull 10 1]
        \<and> video_seconds ([sample_segment ''001'' None AgendaNull 12 1,
                             sample_segment ''002'' None AgendaNull 10 1] ! Suc i)
          < video_seconds ([sample_segment ''001'' None AgendaNull 12 1,
                             sample_segment ''002'' None AgendaNull 10 1] ! i)"
    by (rule exI [of _ 0]) (simp add: sample_segment_def)
  show ?thesis
    using a b
      validateAlignment_valid [of "\<lambda>x. ''n''" "[sample_segment ''001'' None AgendaNull 10 1,
                                     sample_segment ''002'' None AgendaNull 12 1]"]
      validateAlignment_valid [of "\<lambda>x. ''n''" "[sample_segment ''001'' None AgendaNull 12 1,
                                     sample_segment ''002'' None AgendaNull 10 1]"]
    by blast
qed

section \<open>Properties of the time-literal parsers\<close>

lemma is_digit_not_special:
  assumes "is_digit c"
  shows "c \<noteq> CHR '':''" "c \<noteq> CHR ''.''" "c \<noteq> CHR '',''" "c \<noteq> CHR ''-''" "c \<noteq> CHR ''+''"
    "\<not> is_space c"
  using assms by (auto simp: is_digit_def is_space_def)

lemma is_digit_zero: "is_digit CHR ''0''"
  by (simp add: is_digit_def)

lemma split_on_skip:
  "\<forall>c \<in> set d. c \<noteq> sep \<Longrightarrow> split_on sep cur (d @ rest) = split_on sep (cur @ d) rest"
  by (induction d arbitrary: cur) simp_all

lemma split_str_two:
  "\<forall>c \<in> set a. c \<noteq> sep \<Longrightarrow> \<forall>c \<in> set b. c \<noteq> sep
     \<Longrightarrow> split_str sep (a @ sep # b) = [a, b]"
  using split_on_skip [of a sep "[]" "sep # b"] split_on_skip [of b sep "[]" "[]"]
  by (simp add: split_str_def)

lemma split_str_three:
  "\<forall>c \<in> set a. c \<noteq> sep \<Longrightarrow> \<forall>c \<in> set b. c \<noteq> sep \<Longrightarrow> \<forall>c \<in> set c3. c \<noteq> sep
     \<Longrightarrow> split_str sep (a @ sep # b @ sep # c3) = [a, b, c3]"
  using split_on_skip [of a sep "[]" "sep # b @ sep # c3"]
    split_on_skip [of b sep "[]" "sep # c3"] split_on_skip [of c3 sep "[]" "[]"]
  by (simp add: split_str_def)

lemma parseInt10_digits:
  assumes "d \<noteq> []" and "list_all is_digit d"
  shows "parseInt10 d = Num (real (digits_value d))"
proof -
  from assms obtain c cs where d: "d = c # cs" and c: "is_digit c"
    by (cases d) auto
  have dw: "dropWhile is_space d = d"
    using c by (simp add: d is_digit_not_special)
  have tw: "takeWhile is_digit d = d"
    using assms(2) by (simp add: list_all_iff)
  have hd: "hd d \<noteq> CHR ''-''" "hd d \<noteq> CHR ''+''"
    using c by (simp_all add: d is_digit_not_special)
  show ?thesis
    using assms(1) by (simp add: parseInt10_def Let_def dw tw hd)
qed

lemma matches_Digits_append:
  assumes "list_all is_digit d" and "rest = [] \<or> \<not> is_digit (hd rest)"
  shows "matches (Digits lo hi # ts) (d @ rest) =
     (if lo \<le> length d \<and> (case hi of None \<Rightarrow> True | Some h \<Rightarrow> length d \<le> h)
      then map_option (\<lambda>groups. d # groups) (matches ts rest) else None)"
proof -
  have r: "takeWhile is_digit rest = []" "dropWhile is_digit rest = rest"
    using assms(2) by (cases rest; simp)+
  have "takeWhile is_digit (d @ rest) = d" "dropWhile is_digit (d @ rest) = rest"
    using assms(1) r by (simp_all add: list_all_iff)
  then show ?thesis by simp
qed

lemma matches_Digits_split:
  assumes "matches (Digits lo hi # ts) s = Some gs"
  obtains d rest gs' where "gs = d # gs'" "s = d @ rest" "list_all is_digit d"
    "lo \<le> length d" "case hi of None \<Rightarrow> True | Some h \<Rightarrow> length d \<le> h"
    "rest = [] \<or> \<not> is_digit (hd rest)" "matches ts rest = Some gs'"
proof -
  let ?d = "takeWhile is_digit s" and ?r = "dropWhile is_digit s"
  from assms have ok: "lo \<le> length ?d" "case hi of None \<Rightarrow> True | Some h \<Rightarrow> length ?d \<le> h"
    by (auto simp: Let_def split: if_splits)
  with assms obtain gs' where "gs = ?d # gs'" "matches ts ?r = Some gs'"
    by (auto simp: Let_def split: if_splits)
  moreover have "s = ?d @ ?r" by simp
  moreover have "list_all is_digit ?d"
    by (simp add: list_all_iff) (meson set_takeWhileD)
  moreover have "?r = [] \<or> \<not> is_digit (hd ?r)"
    by (metis hd_dropWhile)
  ultimately show ?thesis using ok that by blast
qed

lemma matches_Lit_split:
  assumes "matches (Lit c # ts) s = Some gs"
  obtains rest where "s = c # rest" "matches ts rest = Some gs"
  using assms by (cases s) (auto split: if_splits)

lemma matches_Nil_split:
  assumes "matches [] s = Some gs"
  shows "s = [] \<and> gs = []"
  using assms by (auto split: if_splits)

lemma matches_Digits_Lit:
  assumes "matches (Digits lo hi # Lit c # ts) s = Some gs"
  obtains d rest gs' where "gs = d # gs'" "s = d @ c # rest" "list_all is_digit d"
    "lo \<le> length d" "case hi of None \<Rightarrow> True | Some h \<Rightarrow> length d \<le> h"
    "matches ts rest = Some gs'"
proof -
  from assms obtain d r gs' where a: "gs = d # gs'" "s = d @ r" "list_all is_digit d"
    "lo \<le> length d" "case hi of None \<Rightarrow> True | Some h \<Rightarrow> length d \<le> h"
    and m: "matches (Lit c # ts) r = Some gs'"
    by (rule matches_Digits_split)
  from m obtain rest where "r = c # rest" "matches ts rest = Some gs'"
    by (rule matches_Lit_split)
  with a that show ?thesis by blast
qed

lemma matches_Digits_last:
  assumes "matches [Digits lo hi] s = Some gs"
  shows "gs = [s] \<and> list_all is_digit s \<and> lo \<le> length s
    \<and> (case hi of None \<Rightarrow> True | Some h \<Rightarrow> length s \<le> h)"
proof -
  from assms obtain d r gs' where a: "gs = d # gs'" "s = d @ r" "list_all is_digit d"
    "lo \<le> length d" "case hi of None \<Rightarrow> True | Some h \<Rightarrow> length d \<le> h"
    and m: "matches [] r = Some gs'"
    by (rule matches_Digits_split)
  from m have "r = [] \<and> gs' = []"
    by (rule matches_Nil_split)
  with a show ?thesis by (cases hi) simp_all
qed

lemma matches_Digits_whole:
  "list_all is_digit d \<Longrightarrow> matches [Digits lo hi] d =
     (if lo \<le> length d \<and> (case hi of None \<Rightarrow> True | Some h \<Rightarrow> length d \<le> h)
      then Some [d] else None)"
  using matches_Digits_append [of d "[]" lo hi "[]"] by simp

lemma matches_Digits_then:
  "list_all is_digit d \<Longrightarrow> \<not> is_digit c \<Longrightarrow> matches (Digits lo hi # ts) (d @ c # rest) =
     (if lo \<le> length d \<and> (case hi of None \<Rightarrow> True | Some h \<Rightarrow> length d \<le> h)
      then map_option (\<lambda>groups. d # groups) (matches ts (c # rest)) else None)"
  using matches_Digits_append [of d "c # rest" lo hi ts] by simp

lemma not_digit_separators:
  "\<not> is_digit CHR '':''" "\<not> is_digit CHR ''.''" "\<not> is_digit CHR '',''"
  by (simp_all add: is_digit_def)

lemma digits_no:
  assumes "list_all is_digit d"
  shows "\<forall>c \<in> set d. c \<noteq> CHR '':''" "\<forall>c \<in> set d. c \<noteq> CHR ''.''"
    "\<forall>c \<in> set d. c \<noteq> CHR '',''"
  using assms by (auto simp: list_all_iff is_digit_not_special)

lemma replace_comma_skip:
  "\<forall>c \<in> set d. c \<noteq> CHR '','' \<Longrightarrow> replace_comma (d @ rest) = d @ replace_comma rest"
  by (induction d) simp_all

lemma padEnd_digits:
  "list_all is_digit ms \<Longrightarrow> list_all is_digit (padEnd 3 CHR ''0'' ms)"
  by (auto simp: padEnd_def is_digit_zero list_all_iff)

lemma padEnd_nonempty: "ms \<noteq> [] \<Longrightarrow> padEnd 3 CHR ''0'' ms \<noteq> []"
  by (simp add: padEnd_def)

lemma timeToSeconds_MM_SS:
  assumes "matches form_MM_SS s = Some gs"
  shows "\<exists>m sec. gs = [m, sec]
    \<and> timeToSeconds s = Inr (Num (real (digits_value m) * 60 + real (digits_value sec)))"
proof -
  from assms obtain m r g1 where a: "gs = m # g1" "s = m @ CHR '':'' # r" "list_all is_digit m"
    "1 \<le> length m" and m1: "matches [Digits 2 (Some 2)] r = Some g1"
    unfolding form_MM_SS_def by (rule matches_Digits_Lit)
  from matches_Digits_last [OF m1] have b: "g1 = [r]" "list_all is_digit r" "2 \<le> length r"
    by simp_all
  have sp: "split_str CHR '':'' s = [m, r]"
    unfolding a(2) using a(3) b(2) by (intro split_str_two digits_no)
  have pm: "parseInt10 m = Num (real (digits_value m))"
    using a(3,4) by (intro parseInt10_digits) auto
  have pr: "parseInt10 r = Num (real (digits_value r))"
    using b(2,3) by (intro parseInt10_digits) auto
  show ?thesis
    by (simp add: a(1) b(1) timeToSeconds_def sp pm pr)
qed

lemma timeToSeconds_HH_MM_SS:
  assumes "matches form_HH_MM_SS s = Some gs"
  shows "\<exists>h m sec. gs = [h, m, sec]
    \<and> timeToSeconds s = Inr (Num (real (digits_value h) * 3600 + real (digits_value m) * 60
          + real (digits_value sec)))"
proof -
  from assms obtain h r1 g1 where a: "gs = h # g1" "s = h @ CHR '':'' # r1" "list_all is_digit h"
    "1 \<le> length h"
    and m1: "matches [Digits 2 (Some 2), Lit CHR '':'', Digits 2 (Some 2)] r1 = Some g1"
    unfolding form_HH_MM_SS_def by (rule matches_Digits_Lit)
  from m1 obtain m r g2 where b: "g1 = m # g2" "r1 = m @ CHR '':'' # r" "list_all is_digit m"
    "2 \<le> length m" and m2: "matches [Digits 2 (Some 2)] r = Some g2"
    by (rule matches_Digits_Lit)
  from matches_Digits_last [OF m2] have c: "g2 = [r]" "list_all is_digit r" "2 \<le> length r"
    by simp_all
  have sp: "split_str CHR '':'' s = [h, m, r]"
    unfolding a(2) b(2) using a(3) b(3) c(2) by (intro split_str_three digits_no)
  have ph: "parseInt10 h = Num (real (digits_value h))"
    using a(3,4) by (intro parseInt10_digits) auto
  have pm: "parseInt10 m = Num (real (digits_value m))"
    using b(3,4) by (intro parseInt10_digits) auto
  have pr: "parseInt10 r = Num (real (digits_value r))"
    using c(2,3) by (intro parseInt10_digits) auto
  show ?thesis
    by (simp add: a(1) b(1) c(1) timeToSeconds_def sp ph pm pr)
qed

lemma normalized_fraction:
  assumes "sep = CHR ''.'' \<or> sep = CHR '',''" and "list_all is_digit ms"
  shows "replace_comma (sep # ms) = CHR ''.'' # ms"
proof -
  have "replace_comma (CHR ''.'' # ms) = CHR ''.'' # ms"
    using replace_comma_skip [of "CHR ''.'' # ms" "[]"] digits_no(3) [OF assms(2)] by simp
  then show ?thesis using assms(1) by auto
qed

lemma parseVTTTimestamp_MM_SS_mmm:
  assumes "sep = CHR ''.'' \<or> sep = CHR '',''" and "matches (form_MM_SS_mmm sep) s = Some gs"
  shows "\<exists>m sec ms. gs = [m, sec, ms]
    \<and> parseVTTTimestamp s = Inr (Num (real (digits_value m) * 60 + real (digits_value sec)
          + real (digits_value (padEnd 3 CHR ''0'' ms)) / 1000))"
proof -
  from assms(2) obtain m r1 g1 where a: "gs = m # g1" "s = m @ CHR '':'' # r1" "list_all is_digit m"
    "1 \<le> length m" "length m \<le> 2"
    and m1: "matches [Digits 2 (Some 2), Lit sep, Digits 1 (Some 3)] r1 = Some g1"
    unfolding form_MM_SS_mmm_def by (rule matches_Digits_Lit) simp
  from m1 obtain sec ms g2 where b: "g1 = sec # g2" "r1 = sec @ sep # ms" "list_all is_digit sec"
    "2 \<le> length sec" "length sec \<le> 2" and m2: "matches [Digits 1 (Some 3)] ms = Some g2"
    by (rule matches_Digits_Lit) simp
  from matches_Digits_last [OF m2] have c: "g2 = [ms]" "list_all is_digit ms" "1 \<le> length ms"
    "length ms \<le> 3"
    by simp_all
  have norm: "replace_comma s = m @ CHR '':'' # sec @ CHR ''.'' # ms"
    unfolding a(2) b(2)
    using replace_comma_skip [of m "CHR '':'' # sec @ sep # ms"]
      replace_comma_skip [of "CHR '':'' # sec" "sep # ms"]
      digits_no(3) [OF a(3)] digits_no(3) [OF b(3)] normalized_fraction [OF assms(1) c(2)]
    by simp
  have first: "matches [Digits 1 (Some 1), Lit CHR '':'', Digits 2 (Some 2), Lit CHR '':'',
       Digits 2 (Some 2), Lit CHR ''.'', Digits 1 None] (m @ CHR '':'' # sec @ CHR ''.'' # ms) = None"
    using a(3) b(3) by (simp add: matches_Digits_then not_digit_separators del: matches.simps(3))
  have short: "matches [Digits 1 (Some 2), Lit CHR '':'', Digits 2 (Some 2), Lit CHR ''.'',
       Digits 1 (Some 3)] (m @ CHR '':'' # sec @ CHR ''.'' # ms) = Some [m, sec, ms]"
    using a(3,4,5) b(3,4,5) c(2,3,4)
    by (simp add: matches_Digits_then matches_Digits_whole not_digit_separators
        del: matches.simps(3))
  have pm: "parseInt10 m = Num (real (digits_value m))"
    using a(3,4) by (intro parseInt10_digits) auto
  have ps: "parseInt10 sec = Num (real (digits_value sec))"
    using b(3,4) by (intro parseInt10_digits) auto
  have pf: "parseInt10 (padEnd 3 CHR ''0'' ms) = Num (real (digits_value (padEnd 3 CHR ''0'' ms)))"
    using c(2,3) by (intro parseInt10_digits padEnd_digits padEnd_nonempty) auto
  show ?thesis
    unfolding parseVTTTimestamp_def Let_def norm first short
    by (simp add: a(1) b(1) c(1) pm ps pf)
qed

lemma parseVTTTimestamp_H_MM_SS_mmm:
  assumes "sep = CHR ''.'' \<or> sep = CHR '',''" and "matches (form_H_MM_SS_mmm sep) s = Some gs"
  shows "\<exists>h m sec ms. gs = [h, m, sec, ms]
    \<and> parseVTTTimestamp s = Inr (Num (real (digits_value h) * 3600 + real (digits_value m) * 60
          + real (digits_value sec) + real (digits_value (padEnd 3 CHR ''0'' ms)) / 1000))"
proof -
  from assms(2) obtain h r0 g0 where z: "gs = h # g0" "s = h @ CHR '':'' # r0" "list_all is_digit h"
    "1 \<le> length h" "length h \<le> 2"
    and m0: "matches [Digits 2 (Some 2), Lit CHR '':'', Digits 2 (Some 2), Lit sep,
       Digits 1 (Some 3)] r0 = Some g0"
    unfolding form_H_MM_SS_mmm_def by (rule matches_Digits_Lit) simp
  from m0 obtain m r1 g1 where a: "g0 = m # g1" "r0 = m @ CHR '':'' # r1" "list_all is_digit m"
    "2 \<le> length m" "length m \<le> 2"
    and m1: "matches [Digits 2 (Some 2), Lit sep, Digits 1 (Some 3)] r1 = Some g1"
    by (rule matches_Digits_Lit) simp
  from m1 obtain sec ms g2 where b: "g1 = sec # g2" "r1 = sec @ sep # ms" "list_all is_digit sec"
    "2 \<le> length sec" "length sec \<le> 2" and m2: "matches [Digits 1 (Some 3)] ms = Some g2"
    by (rule matches_Digits_Lit) simp
  from matches_Digits_last [OF m2] have c: "g2 = [ms]" "list_all is_digit ms" "1 \<le> length ms"
    "length ms \<le> 3"
    by simp_all
  let ?n = "h @ CHR '':'' # m @ CHR '':'' # sec @ CHR ''.'' # ms"
  have norm: "replace_comma s = ?n"
    unfolding z(2) a(2) b(2)
    using replace_comma_skip [of h "CHR '':'' # m @ CHR '':'' # sec @ sep # ms"]
      replace_comma_skip [of "CHR '':'' # m" "CHR '':'' # sec @ sep # ms"]
      replace_comma_skip [of "CHR '':'' # sec" "sep # ms"]
      digits_no(3) [OF z(3)] digits_no(3) [OF a(3)] digits_no(3) [OF b(3)]
      normalized_fraction [OF assms(1) c(2)]
    by simp
  have ph: "parseInt10 h = Num (real (digits_value h))"
    using z(3,4) by (intro parseInt10_digits) auto
  have pm: "parseInt10 m = Num (real (digits_value m))"
    using a(3,4) by (intro parseInt10_digits) auto
  have ps: "parseInt10 sec = Num (real (digits_value sec))"
    using b(3,4) by (intro parseInt10_digits) auto
  have pf: "parseInt10 (padEnd 3 CHR ''0'' ms) = Num (real (digits_value (padEnd 3 CHR ''0'' ms)))"
    using c(2,3) by (intro parseInt10_digits padEnd_digits padEnd_nonempty) auto
  have short: "matches [Digits 1 (Some 2), Lit CHR '':'', Digits 2 (Some 2), Lit CHR ''.'',
       Digits 1 (Some 3)] ?n = None"
    using z(3) a(3) by (simp add: matches_Digits_then not_digit_separators del: matches.simps(3))
  have long: "matches [Digits 1 (Some 2), Lit CHR '':'', Digits 2 (Some 2), Lit CHR '':'',
       Digits 2 (Some 2), Lit CHR ''.'', Digits 1 (Some 3)] ?n = Some [h, m, sec, ms]"
    using z(3,4,5) a(3,4,5) b(3,4,5) c(2,3,4)
    by (simp add: matches_Digits_then matches_Digits_whole not_digit_separators
        del: matches.simps(3))
  have sp: "split_str CHR '':'' ?n = [h, m, sec @ CHR ''.'' # ms]"
    using split_str_three [of h "CHR '':''" m "sec @ CHR ''.'' # ms"]
      digits_no(1) [OF z(3)] digits_no(1) [OF a(3)] digits_no(1) [OF b(3)] digits_no(1) [OF c(2)]
    by auto
  have sp2: "split_str CHR ''.'' (sec @ CHR ''.'' # ms) = [sec, ms]"
    using b(3) c(2) by (intro split_str_two digits_no)
  have ne: "ms \<noteq> []"
    using c(3) by auto
  have vtt: "vttTimestampToSeconds ?n = Inr (Num (real (digits_value h) * 3600
          + real (digits_value m) * 60
          + real (digits_value sec) + real (digits_value (padEnd 3 CHR ''0'' ms)) / 1000))"
    by (simp add: vttTimestampToSeconds_def sp sp2 ph pm ps pf ne)
  show ?thesis
  proof (cases "matches [Digits 1 (Some 1), Lit CHR '':'', Digits 2 (Some 2), Lit CHR '':'',
       Digits 2 (Some 2), Lit CHR ''.'', Digits 1 None] ?n = None")
    case True
    show ?thesis
      unfolding parseVTTTimestamp_def Let_def norm True short long
      by (simp add: z(1) a(1) b(1) c(1) ph pm ps pf)
  next
    case False
    then show ?thesis
      unfolding parseVTTTimestamp_def Let_def norm vtt
      by (simp add: z(1) a(1) b(1) c(1))
  qed
qed

text \<open>
  The listed forms are accepted: \<^verbatim>\<open>timeToSeconds\<close> returns the seconds of a literal of the
  form \<^verbatim>\<open>MM:SS\<close> or \<^verbatim>\<open>HH:MM:SS\<close>, and the caption parser those of a literal of the form
  \<^verbatim>\<open>MM:SS.mmm\<close> or \<^verbatim>\<open>H:MM:SS.mmm\<close> with a period or a comma, the fraction padded with zeros
  to three digits.
\<close>

theorem time_literal_forms_accepted:
  "(\<forall>gs. matches form_MM_SS s = Some gs \<longrightarrow>
      (\<exists>m sec. gs = [m, sec]
        \<and> timeToSeconds s = Inr (Num (real (digits_value m) * 60 + real (digits_value sec)))))
   \<and> (\<forall>gs. matches form_HH_MM_SS s = Some gs \<longrightarrow>
      (\<exists>h m sec. gs = [h, m, sec]
        \<and> timeToSeconds s = Inr (Num (real (digits_value h) * 3600 + real (digits_value m) * 60
              + real (digits_value sec)))))
   \<and> (\<forall>sep gs. (sep = CHR ''.'' \<or> sep = CHR '','') \<and> matches (form_MM_SS_mmm sep) s = Some gs
      \<longrightarrow> (\<exists>m sec ms. gs = [m, sec, ms]
        \<and> parseVTTTimestamp s = Inr (Num (real (digits_value m) * 60 + real (digits_value sec)
              + real (digits_value (padEnd 3 CHR ''0'' ms)) / 1000))))
   \<and> (\<forall>sep gs. (sep = CHR ''.'' \<or> sep = CHR '','') \<and> matches (form_H_MM_SS_mmm sep) s = Some gs
      \<longrightarrow> (\<exists>h m sec ms. gs = [h, m, sec, ms]
        \<and> parseVTTTimestamp s = Inr (Num (real (digits_value h) * 3600
              + real (digits_value m) * 60 + real (digits_value sec)
              + real (digits_value (padEnd 3 CHR ''0'' ms)) / 1000))))"
proof (intro conjI allI impI)
  fix gs assume "matches form_MM_SS s = Some gs"
  then show "\<exists>m sec. gs = [m, sec]
        \<and> timeToSeconds s = Inr (Num (real (digits_value m) * 60 + real (digits_value sec)))"
    by (rule timeToSeconds_MM_SS)
next
  fix gs assume "matches form_HH_MM_SS s = Some gs"
  then show "\<exists>h m sec. gs = [h, m, sec]
        \<and> timeToSeconds s = Inr (Num (real (digits_value h) * 3600 + real (digits_value m) * 60
              + real (digits_value sec)))"
    by (rule timeToSeconds_HH_MM_SS)
next
  fix sep gs
  assume "(sep = CHR ''.'' \<or> sep = CHR '','') \<and> matches (form_MM_SS_mmm sep) s = Some gs"
  then show "\<exists>m sec ms. gs = [m, sec, ms]
        \<and> parseVTTTimestamp s = Inr (Num (real (digits_value m) * 60 + real (digits_value sec)
              + real (digits_value (padEnd 3 CHR ''0'' ms)) / 1000))"
    using parseVTTTimestamp_MM_SS_mmm [of sep s gs] by blast
next
  fix sep gs
  assume "(sep = CHR ''.'' \<or> sep = CHR '','') \<and> matches (form_H_MM_SS_mmm sep) s = Some gs"
  then show "\<exists>h m sec ms. gs = [h, m, sec, ms]
        \<and> parseVTTTimestamp s = Inr (Num (real (digits_value h) * 3600
              + real (digits_value m) * 60 + real (digits_value sec)
              + real (digits_value (padEnd 3 CHR ''0'' ms)) / 1000))"
    using parseVTTTimestamp_H_MM_SS_mmm [of sep s gs] by blast
qed

lemma not_a_form:
  "\<not> time_literal_form ''1:02:.5''" "\<not> time_literal_form ''1:02:03.1234''"
  "\<not> time_literal_form ''1:2:3''"
  by (simp_all add: time_literal_form_def form_MM_SS_def form_HH_MM_SS_def form_MM_SS_mmm_def
      form_H_MM_SS_mmm_def is_digit_def Let_def)

lemma passes_guard:
  "timing_group ''1:02:.5''" "timing_group ''1:02:03.1234''" "timing_group ''1:2:3''"
  by (simp_all add: timing_group_def is_digit_def)

text \<open>
  C8. The code does not do what the claim says on the caption path. The literals
  \<^verbatim>\<open>1:02:.5\<close>, \<^verbatim>\<open>1:02:03.1234\<close> and \<^verbatim>\<open>1:2:3\<close> pass the guard of \<^verbatim>\<open>parseVTT\<close> and are in none
  of the forms, and the caption parser raises no error for them: none of its three
  expressions matches the first and the third, which fall back to
  \<^verbatim>\<open>vttTimestampToSeconds\<close>, and that function tests the number of parts only. The first
  gives NaN, the second 3724.234 (the fraction \<^verbatim>\<open>1234\<close> is read as 1234 milliseconds), the
  third 3723.
\<close>

theorem parseVTTTimestamp_malformed_accepted:
  "timing_group ''1:02:.5'' \<and> \<not> time_literal_form ''1:02:.5''
     \<and> parseVTTTimestamp ''1:02:.5'' = Inr NaN
   \<and> timing_group ''1:02:03.1234'' \<and> \<not> time_literal_form ''1:02:03.1234''
     \<and> parseVTTTimestamp ''1:02:03.1234'' = Inr (Num 3724.234)
   \<and> timing_group ''1:2:3'' \<and> \<not> time_literal_form ''1:2:3''
     \<and> parseVTTTimestamp ''1:2:3'' = Inr (Num 3723)"
proof -
  have a: "parseVTTTimestamp ''1:02:.5'' = Inr NaN"
    by (simp add: parseVTTTimestamp_def vttTimestampToSeconds_def split_str_def parseInt10_def
        is_space_def is_digit_def digits_value_def digit_value_def padEnd_def Let_def
        numeral_2_eq_2)
  have b: "parseVTTTimestamp ''1:02:03.1234'' = Inr (Num 3724.234)"
    by (simp add: parseVTTTimestamp_def vttTimestampToSeconds_def split_str_def parseInt10_def
        is_space_def is_digit_def digits_value_def digit_value_def padEnd_def Let_def)
  have c: "parseVTTTimestamp ''1:2:3'' = Inr (Num 3723)"
    by (simp add: parseVTTTimestamp_def vttTimestampToSeconds_def split_str_def parseInt10_def
        is_space_def is_digit_def digits_value_def digit_value_def padEnd_def Let_def)
  show ?thesis
    using a b c not_a_form passes_guard by simp
qed

theorem parseVTTTimestamp_malformed_accepted_witness:
  "matches form_MM_SS ''1:02:.5'' = None \<and> matches form_HH_MM_SS ''1:02:.5'' = None
   \<and> matches (form_MM_SS_mmm CHR ''.'') ''1:02:.5'' = None
   \<and> matches (form_MM_SS_mmm CHR '','') ''1:02:.5'' = None
   \<and> matches (form_H_MM_SS_mmm CHR ''.'') ''1:02:.5'' = None
   \<and> matches (form_H_MM_SS_mmm CHR '','') ''1:02:.5'' = None
   \<and> parseVTTTimestamp ''1:02:.5'' = Inr NaN"
  using parseVTTTimestamp_malformed_accepted
  by (simp add: time_literal_form_def)

end
